theory Spec2Isabelle
  imports Complex_Main "HOL-Library.AList"
begin

section \<open>Values carried by messages and actions\<close>

text \<open>
  A value as \<^verbatim>\<open>JSON.parse\<close> delivers it. A property that is \<^verbatim>\<open>undefined\<close> (absent from
  the object) is \<open>None\<close> of a \<open>json option\<close>. Numbers are the finite doubles a JSON text
  denotes, taken as reals.
\<close>

datatype json =
    JNull
  | JBool bool
  | JNum real
  | JStr string
  | JArr "json list"
  | JObj "(string \<times> json) list"

text \<open>
  A \<^verbatim>\<open>Date\<close> is its millisecond instant. \<^verbatim>\<open>toISOString()\<close> writes that instant as
  text with millisecond precision and \<^verbatim>\<open>new Date(text)\<close> reads it back, so the text is
  modelled by the instant it denotes.
\<close>

datatype isodate = IsoString nat

section \<open>The action log: class DrawingState of drawing-state.js\<close>

record payload =
  p_tool :: "json option"
  p_color :: "json option"
  p_size :: "json option"
  p_path :: "json option"
  p_startX :: "json option"
  p_startY :: "json option"

record action =
  aid :: int
  userId :: "string option"
  atype :: "string option"
  payload :: payload
  timestamp :: nat
  undone :: bool

text \<open>The object handed to \<^verbatim>\<open>addAction\<close>; \<open>None\<close> is a property the caller left out.\<close>

record action_arg =
  a_userId :: "string option"
  a_type :: "string option"
  a_tool :: "json option"
  a_color :: "json option"
  a_size :: "json option"
  a_path :: "json option"
  a_startX :: "json option"
  a_startY :: "json option"

record DrawingState =
  roomId :: string
  actions :: "action list"
  actionIdCounter :: int
  maxActions :: int
  createdAt :: nat
  lastModified :: nat

text \<open>
  The constructor reads the clock twice (\<^verbatim>\<open>createdAt\<close>, \<^verbatim>\<open>lastModified\<close>); every
  \<^verbatim>\<open>new Date()\<close> of the source is an explicit argument of the model.
\<close>

definition new_DrawingState :: "string \<Rightarrow> nat \<Rightarrow> nat \<Rightarrow> DrawingState" where
  "new_DrawingState rid t0 t1 =
     \<lparr>roomId = rid, actions = [], actionIdCounter = 0, maxActions = 1000,
      createdAt = t0, lastModified = t1\<rparr>"

text \<open>
  \<^verbatim>\<open>Array.prototype.slice(start)\<close> with one argument: a negative start counts from the
  end and is clamped at 0, a non-negative one is clamped at the length.
\<close>

definition slice_from :: "int \<Rightarrow> 'a list \<Rightarrow> 'a list" where
  "slice_from start xs =
     (let len = int (length xs);
          k = (if start < 0 then max (len + start) 0 else min start len)
      in drop (nat k) xs)"

text \<open>
  \<^verbatim>\<open>addAction(action)\<close>: the argument \<open>None\<close> stands for a falsy or non-object
  argument, for which the method returns \<^verbatim>\<open>null\<close> and changes nothing. The result is
  the new state and the returned action. \<open>ts\<close> and \<open>lm\<close> are the two clock reads.
  The counter and the ids are the integers that the JavaScript numbers hold. The
  increment \<^verbatim>\<open>++this.actionIdCounter\<close> is the exact \<open>+ 1\<close> of the model as long as the
  counter lies from \<open>- 2^53\<close> up to, but not including, \<open>2^53\<close>; from \<open>2^53\<close> on the
  number no longer grows by one, and the model does not apply.
\<close>

definition addAction ::
  "DrawingState \<Rightarrow> nat \<Rightarrow> nat \<Rightarrow> action_arg option \<Rightarrow> DrawingState \<times> action option" where
  "addAction s ts lm arg =
     (case arg of
        None \<Rightarrow> (s, None)
      | Some a \<Rightarrow>
          (let c = actionIdCounter s + 1;
               newAction = \<lparr>aid = c, userId = a_userId a, atype = a_type a,
                   payload = \<lparr>p_tool = a_tool a, p_color = a_color a, p_size = a_size a,
                       p_path = a_path a, p_startX = a_startX a, p_startY = a_startY a\<rparr>,
                   timestamp = ts, undone = False\<rparr>;
               pushed = actions s @ [newAction];
               kept = (if int (length pushed) > maxActions s
                       then slice_from (- maxActions s) pushed else pushed)
           in (s\<lparr>actions := kept, actionIdCounter := c, lastModified := lm\<rparr>,
               Some newAction)))"

text \<open>
  The scan shared by the three undo/redo methods:
  \<^verbatim>\<open>for (let i = n - 1; i >= 0; i--) if (test(this.actions[i])) ...\<close>, giving the index
  at which the loop body fires, or \<open>None\<close> when the loop runs out. Every index read is
  below \<open>n\<close>, and the methods call it with \<open>n = length\<close>.
\<close>

fun scan_down :: "(action \<Rightarrow> bool) \<Rightarrow> action list \<Rightarrow> nat \<Rightarrow> nat option" where
  "scan_down test acts 0 = None"
| "scan_down test acts (Suc i) =
     (if test (acts ! i) then Some i else scan_down test acts i)"

text \<open>What the loop body does at the index found: set the flag, touch \<^verbatim>\<open>lastModified\<close>,
  return the action.\<close>

definition flip_at :: "DrawingState \<Rightarrow> nat \<Rightarrow> bool \<Rightarrow> nat \<Rightarrow> DrawingState \<times> action option" where
  "flip_at s i flag now =
     (let a = (actions s ! i)\<lparr>undone := flag\<rparr>
      in (s\<lparr>actions := (actions s)[i := a], lastModified := now\<rparr>, Some a))"

definition undoGlobal_test :: "action \<Rightarrow> bool" where
  "undoGlobal_test a = (\<not> undone a \<and> atype a \<noteq> Some ''clear'')"

definition undoForUser_test :: "string option \<Rightarrow> action \<Rightarrow> bool" where
  "undoForUser_test u a = (userId a = u \<and> \<not> undone a \<and> atype a \<noteq> Some ''clear'')"

definition redoGlobal_test :: "action \<Rightarrow> bool" where
  "redoGlobal_test a = (undone a \<and> atype a \<noteq> Some ''clear'')"

definition undoGlobal :: "DrawingState \<Rightarrow> nat \<Rightarrow> DrawingState \<times> action option" where
  "undoGlobal s now =
     (case scan_down undoGlobal_test (actions s) (length (actions s)) of
        None \<Rightarrow> (s, None)
      | Some i \<Rightarrow> flip_at s i True now)"

definition undoForUser ::
  "DrawingState \<Rightarrow> string option \<Rightarrow> nat \<Rightarrow> DrawingState \<times> action option" where
  "undoForUser s u now =
     (case scan_down (undoForUser_test u) (actions s) (length (actions s)) of
        None \<Rightarrow> (s, None)
      | Some i \<Rightarrow> flip_at s i True now)"

definition redoGlobal :: "DrawingState \<Rightarrow> nat \<Rightarrow> DrawingState \<times> action option" where
  "redoGlobal s now =
     (case scan_down redoGlobal_test (actions s) (length (actions s)) of
        None \<Rightarrow> (s, None)
      | Some i \<Rightarrow> flip_at s i False now)"

definition clear :: "DrawingState \<Rightarrow> nat \<Rightarrow> DrawingState" where
  "clear s now = s\<lparr>actions := [], actionIdCounter := 0, lastModified := now\<rparr>"

record snapshot =
  s_roomId :: string
  s_actions :: "action list"
  s_actionCount :: nat

definition getState :: "DrawingState \<Rightarrow> snapshot" where
  "getState s =
     \<lparr>s_roomId = roomId s, s_actions = actions s, s_actionCount = length (actions s)\<rparr>"

definition getActiveActions :: "DrawingState \<Rightarrow> action list" where
  "getActiveActions s = filter (\<lambda>a. \<not> undone a) (actions s)"

text \<open>
  A run of \<^verbatim>\<open>addAction\<close> calls on one log, each with its two clock reads and its
  argument; the result is the final log and the actions returned (the \<^verbatim>\<open>null\<close>
  returns left out), in call order.
\<close>

fun addActions ::
  "DrawingState \<Rightarrow> (nat \<times> nat \<times> action_arg option) list \<Rightarrow> DrawingState \<times> action list" where
  "addActions s [] = (s, [])"
| "addActions s ((ts, lm, arg) # calls) =
     (case addAction s ts lm arg of
        (s1, r) \<Rightarrow>
          (case addActions s1 calls of
             (s2, rs) \<Rightarrow> (s2, (case r of None \<Rightarrow> rs | Some a \<Rightarrow> a # rs))))"

subsection \<open>The persisted record: toJSON and fromJSON\<close>

text \<open>
  The record \<^verbatim>\<open>toJSON()\<close> builds and \<^verbatim>\<open>fromJSON(data)\<close> reads. A property that
  \<^verbatim>\<open>fromJSON\<close> guards with \<^verbatim>\<open>||\<close> is optional here, \<open>None\<close> being a missing or falsy
  one. The \<^verbatim>\<open>maxActions\<close> field is not part of the record. The entries of
  \<open>j_actions\<close> are the actions of the log; the file carries their timestamps as text,
  which denotes the same instants.
\<close>

record persisted =
  j_roomId :: string
  j_actions :: "action list option"
  j_actionIdCounter :: "int option"
  j_createdAt :: "isodate option"
  j_lastModified :: "isodate option"

definition toISOString :: "nat \<Rightarrow> isodate" where
  "toISOString t = IsoString t"

fun new_Date :: "isodate \<Rightarrow> nat" where
  "new_Date (IsoString t) = t"

definition toJSON :: "DrawingState \<Rightarrow> persisted" where
  "toJSON s =
     \<lparr>j_roomId = roomId s, j_actions = Some (actions s),
      j_actionIdCounter = Some (actionIdCounter s),
      j_createdAt = Some (toISOString (createdAt s)),
      j_lastModified = Some (toISOString (lastModified s))\<rparr>"

text \<open>
  \<^verbatim>\<open>fromJSON(data)\<close>: \<open>t0\<close>, \<open>t1\<close> are the constructor's clock reads, \<open>n0\<close>, \<open>n1\<close> the
  two \<^verbatim>\<open>Date.now()\<close> fallbacks. A counter of 0 is falsy and is replaced by 0.
\<close>

definition fromJSON :: "persisted \<Rightarrow> nat \<Rightarrow> nat \<Rightarrow> nat \<Rightarrow> nat \<Rightarrow> DrawingState" where
  "fromJSON data t0 t1 n0 n1 =
     (let state = new_DrawingState (j_roomId data) t0 t1
      in state\<lparr>actions := (case j_actions data of None \<Rightarrow> [] | Some acts \<Rightarrow> acts),
               actionIdCounter :=
                 (case j_actionIdCounter data of None \<Rightarrow> 0
                  | Some c \<Rightarrow> if c = 0 then 0 else c),
               createdAt := (case j_createdAt data of None \<Rightarrow> n0 | Some d \<Rightarrow> new_Date d),
               lastModified :=
                 (case j_lastModified data of None \<Rightarrow> n1 | Some d \<Rightarrow> new_Date d)\<rparr>)"

subsection \<open>class DrawingStateManager: the logs by room id\<close>

type_synonym manager = "string \<rightharpoonup> DrawingState"

definition Manager_createState :: "manager \<Rightarrow> string \<Rightarrow> nat \<Rightarrow> nat \<Rightarrow> manager" where
  "Manager_createState states rid t0 t1 =
     (case states rid of
        None \<Rightarrow> states(rid \<mapsto> new_DrawingState rid t0 t1)
      | Some st \<Rightarrow> states)"

definition Manager_getState :: "manager \<Rightarrow> string \<Rightarrow> snapshot option" where
  "Manager_getState states rid =
     (case states rid of None \<Rightarrow> None | Some st \<Rightarrow> Some (getState st))"

definition Manager_addAction ::
  "manager \<Rightarrow> string \<Rightarrow> action_arg option \<Rightarrow> nat \<Rightarrow> nat \<Rightarrow> nat \<Rightarrow> nat \<Rightarrow> manager" where
  "Manager_addAction states rid arg t0 t1 ts lm =
     (case states rid of
        None \<Rightarrow> states(rid \<mapsto> fst (addAction (new_DrawingState rid t0 t1) ts lm arg))
      | Some st \<Rightarrow> states(rid \<mapsto> fst (addAction st ts lm arg)))"

text \<open>The argument \<^verbatim>\<open>{ type: 'clear' }\<close> of the marker that \<^verbatim>\<open>clearState\<close> appends.\<close>

definition clear_arg :: action_arg where
  "clear_arg =
     \<lparr>a_userId = None, a_type = Some ''clear'', a_tool = None, a_color = None,
      a_size = None, a_path = None, a_startX = None, a_startY = None\<rparr>"

definition Manager_clearState ::
  "manager \<Rightarrow> string \<Rightarrow> nat \<Rightarrow> nat \<Rightarrow> nat \<Rightarrow> manager" where
  "Manager_clearState states rid t0 ts lm =
     (case states rid of
        None \<Rightarrow> states
      | Some st \<Rightarrow> states(rid \<mapsto> fst (addAction (clear st t0) ts lm (Some clear_arg))))"

definition Manager_undoGlobal :: "manager \<Rightarrow> string \<Rightarrow> nat \<Rightarrow> manager \<times> action option" where
  "Manager_undoGlobal states rid now =
     (case states rid of
        None \<Rightarrow> (states, None)
      | Some st \<Rightarrow> (case undoGlobal st now of (st', r) \<Rightarrow> (states(rid \<mapsto> st'), r)))"

definition Manager_undoForUser ::
  "manager \<Rightarrow> string \<Rightarrow> string option \<Rightarrow> nat \<Rightarrow> manager \<times> action option" where
  "Manager_undoForUser states rid u now =
     (case states rid of
        None \<Rightarrow> (states, None)
      | Some st \<Rightarrow> (case undoForUser st u now of (st', r) \<Rightarrow> (states(rid \<mapsto> st'), r)))"

definition Manager_redoGlobal :: "manager \<Rightarrow> string \<Rightarrow> nat \<Rightarrow> manager \<times> action option" where
  "Manager_redoGlobal states rid now =
     (case states rid of
        None \<Rightarrow> (states, None)
      | Some st \<Rightarrow> (case redoGlobal st now of (st', r) \<Rightarrow> (states(rid \<mapsto> st'), r)))"

text \<open>
  \<^verbatim>\<open>saveState(roomId)\<close> hands the serialised record of the room's log to the file
  system: the result is the record written to the room's file, \<open>None\<close> when the room has
  no log. \<^verbatim>\<open>loadState(roomId)\<close> reads that file back: the file is missing, unreadable
  as JSON (the \<^verbatim>\<open>catch\<close> branch), or holds a record.
\<close>

definition Manager_saveState :: "manager \<Rightarrow> string \<Rightarrow> persisted option" where
  "Manager_saveState states rid =
     (case states rid of None \<Rightarrow> None | Some st \<Rightarrow> Some (toJSON st))"

datatype room_file = Missing | Unreadable | Record persisted

definition Manager_loadState ::
  "manager \<Rightarrow> string \<Rightarrow> room_file \<Rightarrow> nat \<Rightarrow> nat \<Rightarrow> nat \<Rightarrow> nat \<Rightarrow> manager \<times> bool" where
  "Manager_loadState states rid file t0 t1 n0 n1 =
     (case file of
        Missing \<Rightarrow> (states, False)
      | Unreadable \<Rightarrow> (states, False)
      | Record parsed \<Rightarrow> (states(rid \<mapsto> fromJSON parsed t0 t1 n0 n1), True))"

section \<open>Room ids: Room.generateId of rooms.js\<close>

definition chars :: string where
  "chars = ''ABCDEFGHJKLMNPQRSTUVWXYZ23456789''"

text \<open>
  \<^verbatim>\<open>chars[Math.floor(r * chars.length)]\<close> for a value \<open>r\<close> of \<^verbatim>\<open>Math.random()\<close>; an
  index outside the string reads \<^verbatim>\<open>undefined\<close>, which \<^verbatim>\<open>+=\<close> appends as text.
\<close>

definition pick_char :: "real \<Rightarrow> string" where
  "pick_char r =
     (let k = \<lfloor>r * real (length chars)\<rfloor>
      in if 0 \<le> k \<and> k < int (length chars) then [chars ! nat k] else ''undefined'')"

text \<open>The loop of six draws; \<open>rnd i\<close> is the value \<^verbatim>\<open>Math.random()\<close> returns in round \<open>i\<close>.\<close>

definition generateId :: "(nat \<Rightarrow> real) \<Rightarrow> string" where
  "generateId rnd = foldl (\<lambda>ident i. ident @ pick_char (rnd i)) [] [0..<6]"

section \<open>The message router: server.js\<close>

subsection \<open>Objects, truthiness and property access\<close>

text \<open>\<^verbatim>\<open>!v\<close> is false exactly for the truthy values.\<close>

fun truthy :: "json \<Rightarrow> bool" where
  "truthy JNull = False"
| "truthy (JBool b) = b"
| "truthy (JNum r) = (r \<noteq> 0)"
| "truthy (JStr str) = (str \<noteq> [])"
| "truthy (JArr xs) = True"
| "truthy (JObj fs) = True"

text \<open>
  \<^verbatim>\<open>v.k\<close> for a parsed value that is not \<^verbatim>\<open>null\<close>: the property of an object (its
  keys are distinct, as \<^verbatim>\<open>JSON.parse\<close> builds them), and
  \<^verbatim>\<open>undefined\<close> on a number, a string, a boolean or an array (no key of the protocol
  is a built-in property of those). Reading a property of \<^verbatim>\<open>null\<close> throws; the callers
  below test for \<open>JNull\<close> first.
\<close>

fun field :: "string \<Rightarrow> json \<Rightarrow> json option" where
  "field k (JObj fs) = map_of fs k"
| "field k v = None"

text \<open>\<^verbatim>\<open>typeof v === 'number'\<close> on a property read.\<close>

fun is_number :: "json option \<Rightarrow> bool" where
  "is_number (Some (JNum r)) = True"
| "is_number v = False"

text \<open>An object literal as \<^verbatim>\<open>JSON.stringify\<close> writes it: properties whose value is
  \<^verbatim>\<open>undefined\<close> are left out, the others keep their order.\<close>

fun object_literal :: "(string \<times> json option) list \<Rightarrow> (string \<times> json) list" where
  "object_literal [] = []"
| "object_literal ((k, None) # ps) = object_literal ps"
| "object_literal ((k, Some v) # ps) = (k, v) # object_literal ps"

text \<open>A string that may be \<^verbatim>\<open>null\<close> (\<^verbatim>\<open>ws.username\<close> before the join).\<close>

fun string_or_null :: "string option \<Rightarrow> json" where
  "string_or_null None = JNull"
| "string_or_null (Some str) = JStr str"

subsection \<open>Connections, rooms and effects\<close>

text \<open>The connection \<^verbatim>\<open>ws\<close>; \<open>ws_open\<close> is \<^verbatim>\<open>ws.readyState === WebSocket.OPEN\<close>.\<close>

record conn =
  ws_id :: string
  ws_roomId :: "string option"
  ws_username :: "string option"
  ws_open :: bool

text \<open>A member of \<^verbatim>\<open>Room.users\<close>, with the state of its socket.\<close>

record member =
  m_id :: string
  m_username :: string
  m_open :: bool

text \<open>
  The server: the members of each room in the insertion order of \<^verbatim>\<open>Room.users\<close>, and
  the logs of the \<^verbatim>\<open>DrawingStateManager\<close>.
\<close>

record server =
  rooms :: "string \<rightharpoonup> member list"
  states :: manager

text \<open>What goes on the wire: a plain object, or a \<^verbatim>\<open>canvas-rebuild\<close> with its fields
  \<^verbatim>\<open>state\<close>, \<^verbatim>\<open>undoType\<close>, \<^verbatim>\<open>affectedActionId\<close> and \<^verbatim>\<open>triggeredBy\<close>.\<close>

datatype wire =
    Plain json
  | CanvasRebuild "snapshot option" string int "string option"

text \<open>An effect of handling a message: a text sent to a connection, or the record
  handed to \<^verbatim>\<open>fs.writeFile\<close> for a room.\<close>

datatype effect =
    Send string wire
  | Write string persisted

definition getUsers :: "server \<Rightarrow> string \<Rightarrow> member list" where
  "getUsers srv rid = (case rooms srv rid of None \<Rightarrow> [] | Some us \<Rightarrow> us)"

definition send :: "conn \<Rightarrow> wire \<Rightarrow> effect list" where
  "send ws data = (if ws_open ws then [Send (ws_id ws) data] else [])"

definition sendError :: "conn \<Rightarrow> string \<Rightarrow> effect list" where
  "sendError ws msg =
     send ws (Plain (JObj [(''type'', JStr ''error''), (''message'', JStr msg)]))"

text \<open>\<^verbatim>\<open>broadcast(roomId, data, excludeId = null)\<close>.\<close>

definition broadcast :: "server \<Rightarrow> string \<Rightarrow> wire \<Rightarrow> string option \<Rightarrow> effect list" where
  "broadcast srv rid data excludeId =
     map (\<lambda>u. Send (m_id u) data)
       (filter (\<lambda>u. Some (m_id u) \<noteq> excludeId \<and> m_open u) (getUsers srv rid))"

definition saveState :: "server \<Rightarrow> string \<Rightarrow> effect list" where
  "saveState srv rid =
     (case Manager_saveState (states srv) rid of
        None \<Rightarrow> []
      | Some data \<Rightarrow> [Write rid data])"

text \<open>The guard \<^verbatim>\<open>if (!ws.roomId) return\<close>: the room of a joined connection.\<close>

definition room_of :: "conn \<Rightarrow> string option" where
  "room_of ws =
     (case ws_roomId ws of
        None \<Rightarrow> None
      | Some rid \<Rightarrow> if rid = [] then None else Some rid)"

subsection \<open>Validation and the drawing handlers\<close>

definition isValidDrawData :: "json \<Rightarrow> bool" where
  "isValidDrawData data =
     (case field ''type'' data of
        None \<Rightarrow> False
      | Some ty \<Rightarrow>
          if \<not> truthy ty then False
          else if ty \<in> set [JStr ''draw-start'', JStr ''draw-move'']
                  \<and> (case (field ''x'' data, field ''y'' data) of
                        (Some (JNum x), Some (JNum y)) \<Rightarrow> \<bar>x\<bar> > 10000 \<or> \<bar>y\<bar> > 10000
                      | _ \<Rightarrow> True)
          then False
          else if ty = JStr ''draw-end''
                  \<and> (case field ''path'' data of
                        Some (JArr pts) \<Rightarrow> length pts > 10000
                      | _ \<Rightarrow> True)
          then False
          else True)"

text \<open>
  \<^verbatim>\<open>handleDrawEvent(ws, msg)\<close> for an object \<open>JObj fs\<close>; \<open>t0\<close>, \<open>t1\<close> are the clock
  reads of a log created on the way, \<open>ts\<close>, \<open>lm\<close> those of \<^verbatim>\<open>addAction\<close>.
\<close>

definition handleDrawEvent ::
  "server \<Rightarrow> conn \<Rightarrow> (string \<times> json) list \<Rightarrow> nat \<Rightarrow> nat \<Rightarrow> nat \<Rightarrow> nat
     \<Rightarrow> server \<times> effect list" where
  "handleDrawEvent srv ws fs t0 t1 ts lm =
     (case room_of ws of
        None \<Rightarrow> (srv, [])
      | Some rid \<Rightarrow>
          if \<not> isValidDrawData (JObj fs) then (srv, [])
          else
            (let msg = AList.update ''username'' (string_or_null (ws_username ws))
                         (AList.update ''userId'' (JStr (ws_id ws)) fs);
                 ended = (map_of fs ''type'' = Some (JStr ''draw-end''));
                 srv1 = (if ended
                   then srv\<lparr>states := Manager_addAction (states srv) rid
                     (Some \<lparr>a_userId = Some (ws_id ws), a_type = Some ''draw-end'',
                            a_tool = map_of fs ''tool'', a_color = map_of fs ''color'',
                            a_size = map_of fs ''size'', a_path = map_of fs ''path'',
                            a_startX = map_of fs ''startX'', a_startY = map_of fs ''startY''\<rparr>)
                     t0 t1 ts lm\<rparr>
                   else srv);
                 saved = (if ended then saveState srv1 rid else [])
             in (srv1, saved @ broadcast srv1 rid (Plain (JObj msg)) (Some (ws_id ws)))))"

text \<open>
  The loop of \<^verbatim>\<open>handleDrawBatch\<close> over \<^verbatim>\<open>msg.moves\<close>: a move whose \<^verbatim>\<open>x\<close> or
  \<^verbatim>\<open>y\<close> is not a number is skipped (\<^verbatim>\<open>continue\<close>), any other is broadcast. Reading
  \<^verbatim>\<open>move.x\<close> of a \<^verbatim>\<open>null\<close> element throws, which ends the loop: the result is the
  effects so far and whether the exception escaped.
\<close>

fun batch_moves :: "server \<Rightarrow> conn \<Rightarrow> string \<Rightarrow> json list \<Rightarrow> effect list \<times> bool" where
  "batch_moves srv ws rid [] = ([], False)"
| "batch_moves srv ws rid (JNull # moves) = ([], True)"
| "batch_moves srv ws rid (move # moves) =
     (if is_number (field ''x'' move) \<and> is_number (field ''y'' move)
      then
        (case batch_moves srv ws rid moves of
           (rest, threw) \<Rightarrow>
             (broadcast srv rid
                (Plain (JObj (object_literal
                   [(''type'', Some (JStr ''draw-move'')),
                    (''userId'', Some (JStr (ws_id ws))),
                    (''username'', Some (string_or_null (ws_username ws))),
                    (''tool'', field ''tool'' move),
                    (''color'', field ''color'' move),
                    (''size'', field ''size'' move),
                    (''x'', field ''x'' move),
                    (''y'', field ''y'' move)])))
                (Some (ws_id ws)) @ rest, threw))
      else batch_moves srv ws rid moves)"

definition handleDrawBatch ::
  "server \<Rightarrow> conn \<Rightarrow> (string \<times> json) list \<Rightarrow> server \<times> effect list \<times> bool" where
  "handleDrawBatch srv ws fs =
     (case room_of ws of
        None \<Rightarrow> (srv, [], False)
      | Some rid \<Rightarrow>
          (case map_of fs ''moves'' of
             Some (JArr moves) \<Rightarrow>
               if moves = [] then (srv, [], False)
               else (case batch_moves srv ws rid moves of (es, threw) \<Rightarrow> (srv, es, threw))
           | _ \<Rightarrow> (srv, [], False)))"

definition handleCursorMove ::
  "server \<Rightarrow> conn \<Rightarrow> (string \<times> json) list \<Rightarrow> server \<times> effect list" where
  "handleCursorMove srv ws fs =
     (case room_of ws of
        None \<Rightarrow> (srv, [])
      | Some rid \<Rightarrow>
          (srv, broadcast srv rid
             (Plain (JObj (object_literal
                [(''type'', Some (JStr ''cursor-move'')),
                 (''userId'', Some (JStr (ws_id ws))),
                 (''username'', Some (string_or_null (ws_username ws))),
                 (''x'', map_of fs ''x''),
                 (''y'', map_of fs ''y'')])))
             (Some (ws_id ws))))"

definition handleCanvasClear ::
  "server \<Rightarrow> conn \<Rightarrow> nat \<Rightarrow> nat \<Rightarrow> nat \<Rightarrow> server \<times> effect list" where
  "handleCanvasClear srv ws t0 ts lm =
     (case room_of ws of
        None \<Rightarrow> (srv, [])
      | Some rid \<Rightarrow>
          (let srv1 = srv\<lparr>states := Manager_clearState (states srv) rid t0 ts lm\<rparr>
           in (srv1,
               broadcast srv1 rid
                 (Plain (JObj [(''type'', JStr ''canvas-clear''),
                               (''userId'', JStr (ws_id ws))])) None
               @ saveState srv1 rid)))"

subsection \<open>The undo and redo handlers\<close>

text \<open>
  The part the three handlers share after the log was asked: on an affected action,
  broadcast the rebuild to the whole room and persist; on \<^verbatim>\<open>null\<close>, nothing.
\<close>

definition rebuild_and_save ::
  "server \<Rightarrow> conn \<Rightarrow> string \<Rightarrow> string \<Rightarrow> manager \<times> action option \<Rightarrow> server \<times> effect list" where
  "rebuild_and_save srv ws rid undoType res =
     (case res of
        (states', None) \<Rightarrow> (srv\<lparr>states := states'\<rparr>, [])
      | (states', Some affectedAction) \<Rightarrow>
          (let srv1 = srv\<lparr>states := states'\<rparr>
           in (srv1,
               broadcast srv1 rid
                 (CanvasRebuild (Manager_getState states' rid) undoType
                    (aid affectedAction) (ws_username ws)) None
               @ saveState srv1 rid)))"

definition handleUndoGlobal :: "server \<Rightarrow> conn \<Rightarrow> nat \<Rightarrow> server \<times> effect list" where
  "handleUndoGlobal srv ws now =
     (case room_of ws of
        None \<Rightarrow> (srv, [])
      | Some rid \<Rightarrow>
          rebuild_and_save srv ws rid ''global'' (Manager_undoGlobal (states srv) rid now))"

definition handleUndoMy :: "server \<Rightarrow> conn \<Rightarrow> nat \<Rightarrow> server \<times> effect list" where
  "handleUndoMy srv ws now =
     (case room_of ws of
        None \<Rightarrow> (srv, [])
      | Some rid \<Rightarrow>
          rebuild_and_save srv ws rid ''my''
            (Manager_undoForUser (states srv) rid (Some (ws_id ws)) now))"

definition handleRedoGlobal :: "server \<Rightarrow> conn \<Rightarrow> nat \<Rightarrow> server \<times> effect list" where
  "handleRedoGlobal srv ws now =
     (case room_of ws of
        None \<Rightarrow> (srv, [])
      | Some rid \<Rightarrow>
          rebuild_and_save srv ws rid ''redo'' (Manager_redoGlobal (states srv) rid now))"

text \<open>
  The log scan of an undo or redo request finds nothing: the connection has no room, the
  room has no log, or no entry of the log passes the test of the scan.
\<close>

definition nothing_eligible :: "(action \<Rightarrow> bool) \<Rightarrow> server \<Rightarrow> conn \<Rightarrow> bool" where
  "nothing_eligible test srv ws =
     (case room_of ws of
        None \<Rightarrow> True
      | Some rid \<Rightarrow>
          (case states srv rid of
             None \<Rightarrow> True
           | Some st \<Rightarrow> \<not> list_ex test (actions st)))"

subsection \<open>The dispatch\<close>

text \<open>
  The result of handling one message: the server, the connection (only a join changes
  it), the effects in order, and whether an exception escaped the handler.
\<close>

type_synonym outcome = "server \<times> conn \<times> effect list \<times> bool"

definition quiet :: "conn \<Rightarrow> server \<times> effect list \<Rightarrow> outcome" where
  "quiet ws r = (fst r, ws, snd r, False)"

text \<open>Whether the room of the connection has no log yet, so that a finished stroke
  creates one (two clock reads of the constructor) before it is appended.\<close>

definition log_missing :: "server \<Rightarrow> conn \<Rightarrow> bool" where
  "log_missing srv ws =
     (case room_of ws of
        None \<Rightarrow> False
      | Some rid \<Rightarrow> (case states srv rid of None \<Rightarrow> True | Some st \<Rightarrow> False))"

text \<open>
  \<^verbatim>\<open>handleMessage(ws, msg)\<close>. The handler of \<^verbatim>\<open>join-room\<close> is the parameter \<open>join\<close>;
  \<open>clk k\<close> is the \<open>k\<close>-th clock read made while the message is handled, counted from
  0. A finished stroke reads the clock twice in \<^verbatim>\<open>addAction\<close>; these are the reads 0
  and 1 when the room has a log, and the reads 2 and 3, after the two of the
  constructor, when the log is created on the way. The \<^verbatim>\<open>console.log\<close> lines are not
  part of the model.
\<close>

definition handleMessage ::
  "(server \<Rightarrow> conn \<Rightarrow> json \<Rightarrow> outcome) \<Rightarrow> server \<Rightarrow> conn \<Rightarrow> json \<Rightarrow> (nat \<Rightarrow> nat) \<Rightarrow> outcome" where
  "handleMessage join srv ws msg clk =
     (case msg of
        JObj fs \<Rightarrow>
          (case map_of fs ''type'' of
             None \<Rightarrow> (srv, ws, sendError ws ''Missing type'', False)
           | Some ty \<Rightarrow>
               if \<not> truthy ty then (srv, ws, sendError ws ''Missing type'', False)
               else if ty = JStr ''join-room'' then join srv ws msg
               else if ty = JStr ''draw-start'' \<or> ty = JStr ''draw-move'' \<or> ty = JStr ''draw-end''
                 then quiet ws
                   (if log_missing srv ws
                    then handleDrawEvent srv ws fs (clk 0) (clk 1) (clk 2) (clk 3)
                    else handleDrawEvent srv ws fs (clk 0) (clk 1) (clk 0) (clk 1))
               else if ty = JStr ''draw-batch''
                 then (case handleDrawBatch srv ws fs of (srv1, es, threw) \<Rightarrow> (srv1, ws, es, threw))
               else if ty = JStr ''cursor-move'' then quiet ws (handleCursorMove srv ws fs)
               else if ty = JStr ''canvas-clear''
                 then quiet ws (handleCanvasClear srv ws (clk 0) (clk 1) (clk 2))
               else if ty = JStr ''ping''
                 then (srv, ws,
                       send ws (Plain (JObj (object_literal
                         [(''type'', Some (JStr ''pong'')),
                          (''timestamp'', map_of fs ''timestamp'')]))), False)
               else if ty = JStr ''undo-global'' then quiet ws (handleUndoGlobal srv ws (clk 0))
               else if ty = JStr ''undo-my'' then quiet ws (handleUndoMy srv ws (clk 0))
               else if ty = JStr ''redo-global'' then quiet ws (handleRedoGlobal srv ws (clk 0))
               else if ty = JStr ''undo'' then quiet ws (handleUndoMy srv ws (clk 0))
               else if ty = JStr ''redo'' then quiet ws (handleRedoGlobal srv ws (clk 0))
               else (srv, ws, [], False))
      | _ \<Rightarrow> (srv, ws, sendError ws ''Missing type'', False))"

text \<open>
  The \<^verbatim>\<open>message\<close> listener: \<open>None\<close> is a text \<^verbatim>\<open>JSON.parse\<close> rejects. An exception
  from the parser or from a handler is answered with the error \<^verbatim>\<open>Invalid JSON\<close>, after
  the effects the handler had already produced.
\<close>

definition on_message ::
  "(server \<Rightarrow> conn \<Rightarrow> json \<Rightarrow> outcome) \<Rightarrow> server \<Rightarrow> conn \<Rightarrow> json option \<Rightarrow> (nat \<Rightarrow> nat) \<Rightarrow> outcome" where
  "on_message join srv ws parsed clk =
     (case parsed of
        None \<Rightarrow> (srv, ws, sendError ws ''Invalid JSON'', False)
      | Some msg \<Rightarrow>
          (case handleMessage join srv ws msg clk of
             (srv1, ws1, es, threw) \<Rightarrow>
               if threw then (srv1, ws1, es @ sendError ws1 ''Invalid JSON'', False)
               else (srv1, ws1, es, False)))"

section \<open>The adaptive transmission of draw-moves: class CanvasManager of the client\<close>

text \<open>
  The pending animation frame. Its callback is a closure over the \<^verbatim>\<open>throttleMs\<close>
  computed when it was requested, and it is one of two: the one that flushes the batch,
  or the one that sends the pending move.
\<close>

datatype frame = BatchFrame real | MoveFrame real

text \<open>
  What the canvas hands to the network layer: a call of \<^verbatim>\<open>onDrawStart\<close>, of
  \<^verbatim>\<open>onDrawMove\<close> (one \<^verbatim>\<open>draw-move\<close> message), of \<^verbatim>\<open>onDrawBatch\<close> (one
  \<^verbatim>\<open>draw-batch\<close> message) or of \<^verbatim>\<open>onDrawEnd\<close>. The argument of \<^verbatim>\<open>onDrawEnd\<close> (the
  style, the optimised path and the start point of the stroke) belongs to the drawing
  side and is not modelled.
\<close>

datatype 'd sent = DrawStart 'd | DrawMove 'd | DrawBatch "'d list" | DrawEnd

text \<open>
  The fields of the \<^verbatim>\<open>CanvasManager\<close> that the transmission uses. \<open>getLatency\<close> is
  what the callback returns at present (\<open>None\<close>: no callback is set); \<open>onDrawStart\<close>,
  \<open>onDrawMove\<close>, \<open>onDrawBatch\<close> and \<open>onDrawEnd\<close> tell whether those callbacks are set.
  Times are those of \<^verbatim>\<open>performance.now()\<close>, in milliseconds.
\<close>

record 'd CanvasManager =
  isDrawing :: bool
  lastDrawEvent :: real
  pendingDrawData :: "'d option"
  rafId :: "frame option"
  moveBatch :: "'d list"
  getLatency :: "real option"
  onDrawStart :: bool
  onDrawMove :: bool
  onDrawBatch :: bool
  onDrawEnd :: bool

definition current_latency :: "'d CanvasManager \<Rightarrow> real" where
  "current_latency cm = (case getLatency cm of None \<Rightarrow> 50 | Some l \<Rightarrow> l)"

definition getAdaptiveThrottle :: "'d CanvasManager \<Rightarrow> real" where
  "getAdaptiveThrottle cm =
     (let latency = current_latency cm
      in if latency < 50 then 8
         else if latency < 100 then 16
         else if latency < 200 then 32
         else 50)"

definition sendDrawMoveAdaptive :: "'d CanvasManager \<Rightarrow> 'd \<Rightarrow> 'd CanvasManager" where
  "sendDrawMoveAdaptive cm drawData =
     (if onDrawMove cm \<or> onDrawBatch cm
      then
        (let throttleMs = getAdaptiveThrottle cm;
             latency = current_latency cm;
             cm1 = cm\<lparr>pendingDrawData := Some drawData\<rparr>
         in if latency \<ge> 150 \<and> onDrawBatch cm
            then
              (let cm2 = cm1\<lparr>moveBatch := moveBatch cm1 @ [drawData]\<rparr>
               in case rafId cm2 of
                    None \<Rightarrow> cm2\<lparr>rafId := Some (BatchFrame throttleMs)\<rparr>
                  | Some f \<Rightarrow> cm2)
            else
              (case rafId cm1 of
                 None \<Rightarrow> cm1\<lparr>rafId := Some (MoveFrame throttleMs)\<rparr>
               | Some f \<Rightarrow> cm1))
      else cm)"

text \<open>
  The browser runs the pending frame callback at time \<open>now\<close>. Calling a callback that
  is not set throws before \<^verbatim>\<open>this.rafId = null\<close> is reached, so the frame stays
  recorded and nothing is sent.
\<close>

definition animation_frame :: "'d CanvasManager \<Rightarrow> real \<Rightarrow> 'd CanvasManager \<times> 'd sent list" where
  "animation_frame cm now =
     (case rafId cm of
        None \<Rightarrow> (cm, [])
      | Some (BatchFrame throttleMs) \<Rightarrow>
          if now - lastDrawEvent cm \<ge> throttleMs \<and> length (moveBatch cm) > 0
          then (if onDrawBatch cm
                then (cm\<lparr>moveBatch := [], lastDrawEvent := now, rafId := None\<rparr>,
                      [DrawBatch (moveBatch cm)])
                else (cm, []))
          else (cm\<lparr>rafId := None\<rparr>, [])
      | Some (MoveFrame throttleMs) \<Rightarrow>
          (case pendingDrawData cm of
             None \<Rightarrow> (cm\<lparr>rafId := None\<rparr>, [])
           | Some d \<Rightarrow>
               if now - lastDrawEvent cm \<ge> throttleMs
               then (if onDrawMove cm
                     then (cm\<lparr>lastDrawEvent := now, rafId := None\<rparr>, [DrawMove d])
                     else (cm, []))
               else (cm\<lparr>rafId := None\<rparr>, [])))"

text \<open>
  The pointer handlers, as far as the transmission goes (the local drawing and the
  recorded path are left out). \<^verbatim>\<open>startDrawing\<close> opens a stroke and reports its data;
  \<^verbatim>\<open>draw\<close> ignores a move outside a stroke and hands any other to
  \<^verbatim>\<open>sendDrawMoveAdaptive\<close>; \<^verbatim>\<open>stopDrawing\<close> does nothing outside a stroke, and
  otherwise cancels the pending frame, flushes a non-empty batch whatever the time,
  reports the end of the stroke and forgets the pending move.
\<close>

definition startDrawing :: "'d CanvasManager \<Rightarrow> 'd \<Rightarrow> 'd CanvasManager \<times> 'd sent list" where
  "startDrawing cm d =
     (cm\<lparr>isDrawing := True\<rparr>, if onDrawStart cm then [DrawStart d] else [])"

definition draw :: "'d CanvasManager \<Rightarrow> 'd \<Rightarrow> 'd CanvasManager" where
  "draw cm d = (if isDrawing cm then sendDrawMoveAdaptive cm d else cm)"

definition stopDrawing :: "'d CanvasManager \<Rightarrow> 'd CanvasManager \<times> 'd sent list" where
  "stopDrawing cm =
     (if isDrawing cm
      then
        (let cm1 = cm\<lparr>isDrawing := False, rafId := None\<rparr>;
             flushed = (if length (moveBatch cm1) > 0 \<and> onDrawBatch cm1
                        then [DrawBatch (moveBatch cm1)] else []);
             cm2 = (if length (moveBatch cm1) > 0 \<and> onDrawBatch cm1
                    then cm1\<lparr>moveBatch := []\<rparr> else cm1);
             ended = (if onDrawEnd cm2 then [DrawEnd] else [])
         in (cm2\<lparr>pendingDrawData := None\<rparr>, flushed @ ended))
      else (cm, []))"

text \<open>
  What the controller sees, in the order the browser delivers it: the pointer goes down
  (at a time, with the data of the stroke's first point), the pointer moves, the pending
  animation frame runs (at a time), the pointer goes up or leaves (at a time), and the
  network layer has a new smoothed latency, which the latency callback returns from
  then on. The result lists what was handed to the network layer, each with the time
  of the event that caused it.
\<close>

datatype 'd input = Down real 'd | Move 'd | Frame real | Up real | Latency real

fun transmit :: "'d CanvasManager \<Rightarrow> 'd input list \<Rightarrow> 'd CanvasManager \<times> (real \<times> 'd sent) list" where
  "transmit cm [] = (cm, [])"
| "transmit cm (Down t d # ins) =
     (case startDrawing cm d of
        (cm1, out) \<Rightarrow>
          (case transmit cm1 ins of
             (cm2, rest) \<Rightarrow> (cm2, map (Pair t) out @ rest)))"
| "transmit cm (Move d # ins) = transmit (draw cm d) ins"
| "transmit cm (Frame now # ins) =
     (case animation_frame cm now of
        (cm1, out) \<Rightarrow>
          (case transmit cm1 ins of
             (cm2, rest) \<Rightarrow> (cm2, map (Pair now) out @ rest)))"
| "transmit cm (Up t # ins) =
     (case stopDrawing cm of
        (cm1, out) \<Rightarrow>
          (case transmit cm1 ins of
             (cm2, rest) \<Rightarrow> (cm2, map (Pair t) out @ rest)))"
| "transmit cm (Latency l # ins) = transmit (cm\<lparr>getLatency := Some l\<rparr>) ins"

subsection \<open>The two transmission policies, written out\<close>

text \<open>The part of what was sent that carries moves: the \<^verbatim>\<open>draw-move\<close> and
  \<^verbatim>\<open>draw-batch\<close> messages.\<close>

fun carries_moves :: "real \<times> 'd sent \<Rightarrow> bool" where
  "carries_moves (t, DrawMove d) = True"
| "carries_moves (t, DrawBatch ds) = True"
| "carries_moves (t, m) = False"

definition move_traffic :: "(real \<times> 'd sent) list \<Rightarrow> (real \<times> 'd sent) list" where
  "move_traffic sends = filter carries_moves sends"

text \<open>The times at which single \<^verbatim>\<open>draw-move\<close> messages went out, and the moves that
  went out in batches.\<close>

fun single_times :: "(real \<times> 'd sent) list \<Rightarrow> real list" where
  "single_times [] = []"
| "single_times ((t, DrawMove d) # sends) = t # single_times sends"
| "single_times (m # sends) = single_times sends"

fun batched :: "(real \<times> 'd sent) list \<Rightarrow> 'd list" where
  "batched [] = []"
| "batched ((t, DrawBatch ds) # sends) = ds @ batched sends"
| "batched (m # sends) = batched sends"

fun has_batch :: "(real \<times> 'd sent) list \<Rightarrow> bool" where
  "has_batch [] = False"
| "has_batch ((t, DrawBatch ds) # sends) = True"
| "has_batch (m # sends) = has_batch sends"

text \<open>The moves that arrive while a stroke is open, in order.\<close>

fun accepted :: "bool \<Rightarrow> 'd input list \<Rightarrow> 'd list" where
  "accepted drawing [] = []"
| "accepted drawing (Down t d # ins) = accepted True ins"
| "accepted drawing (Move d # ins) = (if drawing then d # accepted drawing ins else accepted drawing ins)"
| "accepted drawing (Frame now # ins) = accepted drawing ins"
| "accepted drawing (Up t # ins) = accepted False ins"
| "accepted drawing (Latency l # ins) = accepted drawing ins"

text \<open>The latencies reported during a run.\<close>

fun latencies :: "'d input list \<Rightarrow> real list" where
  "latencies [] = []"
| "latencies (Latency l # ins) = l # latencies ins"
| "latencies (i # ins) = latencies ins"

text \<open>
  Sending move by move with a 32 ms throttle, as a policy of its own: \<open>drawing\<close> tells
  whether a stroke is open, \<open>prev\<close> is the time of the previous send and \<open>due\<close> the
  latest move for which a frame is awaited. A move of an open stroke replaces \<open>due\<close>.
  A new latency changes nothing.
  A frame sends \<open>due\<close> when at least 32 ms have passed since \<open>prev\<close> and nothing
  otherwise; either way nothing is due afterwards. The end of a stroke drops \<open>due\<close>.
\<close>

fun individual_policy ::
  "bool \<Rightarrow> real \<Rightarrow> 'd option \<Rightarrow> 'd input list \<Rightarrow> (real \<times> 'd sent) list" where
  "individual_policy drawing prev due [] = []"
| "individual_policy drawing prev due (Down t d # ins) = individual_policy True prev due ins"
| "individual_policy drawing prev due (Move d # ins) =
     individual_policy drawing prev (if drawing then Some d else due) ins"
| "individual_policy drawing prev due (Frame now # ins) =
     (case due of
        None \<Rightarrow> individual_policy drawing prev None ins
      | Some d \<Rightarrow>
          if now - prev \<ge> 32
          then (now, DrawMove d) # individual_policy drawing now None ins
          else individual_policy drawing prev None ins)"
| "individual_policy drawing prev due (Up t # ins) =
     (if drawing then individual_policy False prev None ins
      else individual_policy drawing prev due ins)"
| "individual_policy drawing prev due (Latency l # ins) =
     individual_policy drawing prev due ins"

text \<open>
  Batching with a 32 ms throttle, as a policy of its own: \<open>batch\<close> holds the moves not
  yet sent and \<open>awaited\<close> tells whether a frame is awaited. A move of an open stroke is
  appended to the batch. A frame sends the whole batch when at least 32 ms have passed
  since \<open>prev\<close> and the batch is not empty, and nothing otherwise. The end of a stroke
  sends a non-empty batch at once. A new latency changes nothing.
\<close>

fun batching_policy ::
  "bool \<Rightarrow> real \<Rightarrow> 'd list \<Rightarrow> bool \<Rightarrow> 'd input list \<Rightarrow> (real \<times> 'd sent) list" where
  "batching_policy drawing prev batch awaited [] = []"
| "batching_policy drawing prev batch awaited (Down t d # ins) =
     batching_policy True prev batch awaited ins"
| "batching_policy drawing prev batch awaited (Move d # ins) =
     (if drawing then batching_policy drawing prev (batch @ [d]) True ins
      else batching_policy drawing prev batch awaited ins)"
| "batching_policy drawing prev batch awaited (Frame now # ins) =
     (if awaited \<and> now - prev \<ge> 32 \<and> batch \<noteq> []
      then (now, DrawBatch batch) # batching_policy drawing now [] False ins
      else batching_policy drawing prev batch False ins)"
| "batching_policy drawing prev batch awaited (Up t # ins) =
     (if drawing
      then (if batch \<noteq> [] then [(t, DrawBatch batch)] else [])
           @ batching_policy False prev [] False ins
      else batching_policy drawing prev batch awaited ins)"
| "batching_policy drawing prev batch awaited (Latency l # ins) =
     batching_policy drawing prev batch awaited ins"

subsection \<open>The states of the controller under either policy\<close>

text \<open>
  The states the controller passes through while the latency stays from 100 up to, but
  not including, 150 and the batch is empty: a pending frame is the one that sends the
  pending move with the throttle 32, and a move is pending then. \<open>due_of\<close> is the move
  for which a frame is awaited.
\<close>

definition individual_regime :: "'d CanvasManager \<Rightarrow> bool" where
  "individual_regime cm =
     ((case getLatency cm of None \<Rightarrow> False | Some l \<Rightarrow> 100 \<le> l \<and> l < 150)
      \<and> onDrawMove cm \<and> moveBatch cm = []
      \<and> (case rafId cm of
            None \<Rightarrow> True
          | Some f \<Rightarrow> f = MoveFrame 32 \<and> pendingDrawData cm \<noteq> None))"

definition due_of :: "'d CanvasManager \<Rightarrow> 'd option" where
  "due_of cm = (case rafId cm of None \<Rightarrow> None | Some f \<Rightarrow> pendingDrawData cm)"

text \<open>
  The states the controller passes through while the latency stays from 150 up to, but
  not including, 200 and the batch callback is set: a pending frame is the one that
  flushes the batch with the throttle 32.
\<close>

definition batching_regime :: "'d CanvasManager \<Rightarrow> bool" where
  "batching_regime cm =
     ((case getLatency cm of None \<Rightarrow> False | Some l \<Rightarrow> 150 \<le> l \<and> l < 200)
      \<and> onDrawBatch cm
      \<and> (case rafId cm of None \<Rightarrow> True | Some f \<Rightarrow> f = BatchFrame 32))"

section \<open>Sample data\<close>

text \<open>A finished stroke of a user, as \<^verbatim>\<open>handleDrawEvent\<close> hands it to the log.\<close>

definition stroke_by :: "string \<Rightarrow> action_arg" where
  "stroke_by u =
     \<lparr>a_userId = Some u, a_type = Some ''draw-end'', a_tool = Some (JStr ''brush''),
      a_color = Some (JStr ''#000000''), a_size = Some (JNum 5), a_path = Some (JArr []),
      a_startX = Some (JNum 0), a_startY = Some (JNum 0)\<rparr>"

text \<open>A log of room \<^verbatim>\<open>ROOM\<close> with a stroke of alice (id 1) and a later one of bob
  (id 2), both active.\<close>

definition sample_log :: DrawingState where
  "sample_log =
     fst (addActions (new_DrawingState ''ROOM'' 0 0)
       [(1, 1, Some (stroke_by ''alice'')), (2, 2, Some (stroke_by ''bob''))])"

text \<open>
  A canvas between strokes, wired as the application wires it (all callbacks set, the
  latency callback returning \<open>l\<close>), with no frame pending and an empty batch. A move
  is the pair of its coordinates.
\<close>

definition idle_canvas :: "real \<Rightarrow> (real \<times> real) CanvasManager" where
  "idle_canvas l =
     \<lparr>isDrawing = False, lastDrawEvent = 0, pendingDrawData = None, rafId = None,
      moveBatch = [], getLatency = Some l, onDrawStart = True, onDrawMove = True,
      onDrawBatch = True, onDrawEnd = True\<rparr>"

text \<open>
  A server with the room \<^verbatim>\<open>ROOM\<close>, its members alice and bob on open sockets, and the
  sample log; alice's connection, joined to that room. The user ids of the log are the
  connection ids.
\<close>

definition sample_server :: server where
  "sample_server =
     \<lparr>rooms = Map.empty(''ROOM'' \<mapsto>
        [\<lparr>m_id = ''alice'', m_username = ''Alice'', m_open = True\<rparr>,
         \<lparr>m_id = ''bob'', m_username = ''Bob'', m_open = True\<rparr>]),
      states = Map.empty(''ROOM'' \<mapsto> sample_log)\<rparr>"

definition alice_ws :: conn where
  "alice_ws =
     \<lparr>ws_id = ''alice'', ws_roomId = Some ''ROOM'', ws_username = Some ''Alice'',
      ws_open = True\<rparr>"

text \<open>The sample server after alice cleared the canvas: the log holds the clear marker
  only.\<close>

definition cleared_server :: server where
  "cleared_server = fst (handleCanvasClear sample_server alice_ws 7 8 9)"

text \<open>A stand-in for the \<^verbatim>\<open>join-room\<close> handler where a closed example needs one.\<close>

definition no_join :: "server \<Rightarrow> conn \<Rightarrow> json \<Rightarrow> outcome" where
  "no_join srv ws msg = (srv, ws, [], False)"

text \<open>Two sources of random draws: the same value in every round, and the value
  \<open>i / 8\<close> in round \<open>i\<close>.\<close>

definition constant_draws :: "real \<Rightarrow> nat \<Rightarrow> real" where
  "constant_draws r i = r"

definition spread_draws :: "nat \<Rightarrow> real" where
  "spread_draws i = real i / 8"

section \<open>Properties of the action log\<close>

subsection \<open>Truncation keeps the newest entries\<close>

lemma slice_from_neg: "0 < m \<Longrightarrow> slice_from (- m) xs = drop (length xs - nat m) xs"
  by (simp add: slice_from_def Let_def max_def nat_diff_distrib')

lemma slice_from_neg_length: "0 < m \<Longrightarrow> length (slice_from (- m) xs) \<le> nat m"
  by (simp add: slice_from_neg)

lemma slice_from_neg_append:
  "0 < m \<Longrightarrow> slice_from (- m) (slice_from (- m) xs @ ys) = slice_from (- m) (xs @ ys)"
  by (cases "length xs \<le> nat m") (auto simp: slice_from_neg add.commute)

lemma addAction_None: "addAction s ts lm None = (s, None)"
  by (simp add: addAction_def)

lemma addAction_Some_actions:
  assumes "maxActions s = 1000" and "addAction s ts lm (Some a) = (s1, r)"
  shows "\<exists>n. r = Some n \<and> aid n = actionIdCounter s + 1 \<and> \<not> undone n
     \<and> actions s1 = slice_from (- 1000) (actions s @ [n])
     \<and> actionIdCounter s1 = actionIdCounter s + 1 \<and> maxActions s1 = 1000"
  using assms
  by (auto simp: addAction_def Let_def slice_from_neg)

lemma addActions_run:
  "maxActions s = 1000 \<Longrightarrow> addActions s calls = (s', rets) \<Longrightarrow>
     maxActions s' = 1000
     \<and> actionIdCounter s' = actionIdCounter s + int (length rets)
     \<and> sorted_wrt (<) (map aid rets)
     \<and> (\<forall>r \<in> set rets. actionIdCounter s < aid r)
     \<and> actions s' = (if rets = [] then actions s else slice_from (- 1000) (actions s @ rets))"
proof (induction calls arbitrary: s s' rets)
  case Nil
  then show ?case by simp
next
  case (Cons c calls)
  obtain ts lm arg where c: "c = (ts, lm, arg)" by (cases c)
  obtain s1 r where step: "addAction s ts lm arg = (s1, r)" by (cases "addAction s ts lm arg")
  obtain s2 rs where rest: "addActions s1 calls = (s2, rs)" by (cases "addActions s1 calls")
  from Cons.prems(2) c step rest
  have res: "s' = s2" "rets = (case r of None \<Rightarrow> rs | Some a \<Rightarrow> a # rs)" by auto
  show ?case
  proof (cases arg)
    case None
    with step have "s1 = s" "r = None" by (simp_all add: addAction_None)
    with Cons.IH[of s s2 rs] Cons.prems(1) rest res show ?thesis by simp
  next
    case (Some a)
    with addAction_Some_actions[OF Cons.prems(1)] step
    obtain n where n: "r = Some n" "aid n = actionIdCounter s + 1"
      "actions s1 = slice_from (- 1000) (actions s @ [n])"
      "actionIdCounter s1 = actionIdCounter s + 1" "maxActions s1 = 1000"
      by blast
    from Cons.IH[OF n(5) rest]
    have ih: "maxActions s2 = 1000"
      "actionIdCounter s2 = actionIdCounter s1 + int (length rs)"
      "sorted_wrt (<) (map aid rs)"
      "\<forall>r \<in> set rs. actionIdCounter s1 < aid r"
      "actions s2 = (if rs = [] then actions s1 else slice_from (- 1000) (actions s1 @ rs))"
      by simp_all
    have rets: "rets = n # rs" using res n by simp
    have acts: "actions s2 = slice_from (- 1000) (actions s @ n # rs)"
      using ih(5) n(3) slice_from_neg_append[of 1000 "actions s @ [n]" rs] by simp
    show ?thesis
      using ih n rets res acts by auto
  qed
qed

lemma addActions_ids_bounded:
  "maxActions s = 1000 \<Longrightarrow> addActions s calls = (s', rets) \<Longrightarrow>
     \<forall>r \<in> set rets. aid r \<le> actionIdCounter s'"
proof (induction calls arbitrary: s s' rets)
  case Nil
  then show ?case by simp
next
  case (Cons c calls)
  obtain ts lm arg where c: "c = (ts, lm, arg)" by (cases c)
  obtain s1 r where step: "addAction s ts lm arg = (s1, r)" by (cases "addAction s ts lm arg")
  obtain s2 rs where rest: "addActions s1 calls = (s2, rs)" by (cases "addActions s1 calls")
  from Cons.prems(2) c step rest
  have res: "s' = s2" "rets = (case r of None \<Rightarrow> rs | Some a \<Rightarrow> a # rs)" by auto
  show ?case
  proof (cases arg)
    case None
    with step have eq: "s1 = s" "r = None" by (simp_all add: addAction_None)
    from Cons.IH[OF Cons.prems(1) rest[unfolded eq(1)]] res eq show ?thesis by simp
  next
    case (Some a)
    with addAction_Some_actions[OF Cons.prems(1)] step
    obtain n where n: "r = Some n" "aid n = actionIdCounter s + 1"
      "actionIdCounter s1 = actionIdCounter s + 1" "maxActions s1 = 1000"
      by blast
    note ih = Cons.IH[OF n(4) rest]
    from addActions_run[OF n(4) rest]
    have "actionIdCounter s2 = actionIdCounter s1 + int (length rs)" by simp
    then have "aid n \<le> actionIdCounter s2" using n(2,3) by simp
    with ih res n(1) show ?thesis by simp
  qed
qed

lemma log_order_kept:
  assumes "maxActions s = 1000" and "addActions s calls = (s', rets)"
    and "sorted_wrt (<) (map aid (actions s))"
    and "\<forall>a \<in> set (actions s). aid a \<le> actionIdCounter s"
  shows "sorted_wrt (<) (map aid (actions s'))"
    and "\<forall>a \<in> set (actions s'). aid a \<le> actionIdCounter s'"
proof -
  note run = addActions_run[OF assms(1,2)]
  note bound = addActions_ids_bounded[OF assms(1,2)]
  have grow: "actionIdCounter s \<le> actionIdCounter s'" using run by simp
  have all_sorted: "sorted_wrt (<) (map aid (actions s @ rets))"
    using run assms(3,4) by (fastforce simp: sorted_wrt_append)
  have all_bound: "\<forall>a \<in> set (actions s @ rets). aid a \<le> actionIdCounter s'"
    using assms(4) grow bound by fastforce
  have "\<exists>k. actions s' = drop k (actions s @ rets)"
  proof (cases "rets = []")
    case True
    with run have "actions s' = drop 0 (actions s @ rets)" by simp
    then show ?thesis by blast
  next
    case False
    have "slice_from (- 1000) (actions s @ rets)
        = drop (length (actions s @ rets) - nat 1000) (actions s @ rets)"
      by (rule slice_from_neg) simp
    with run False show ?thesis by metis
  qed
  then obtain k where k: "actions s' = drop k (actions s @ rets)" by blast
  have "map aid (actions s') = drop k (map aid (actions s @ rets))"
    by (simp only: k drop_map)
  then show "sorted_wrt (<) (map aid (actions s'))"
    using all_sorted by (simp only: sorted_wrt_drop)
  have "set (actions s') \<subseteq> set (actions s @ rets)"
    unfolding k by (rule set_drop_subset)
  with all_bound show "\<forall>a \<in> set (actions s'). aid a \<le> actionIdCounter s'" by blast
qed

lemma addActions_length:
  "addActions s calls = (s', rets) \<Longrightarrow> length rets \<le> length calls"
proof (induction calls arbitrary: s s' rets)
  case Nil
  then show ?case by simp
next
  case (Cons c calls)
  obtain ts lm arg where c: "c = (ts, lm, arg)" by (cases c)
  obtain s1 r where step: "addAction s ts lm arg = (s1, r)" by (cases "addAction s ts lm arg")
  obtain s2 rs where rest: "addActions s1 calls = (s2, rs)" by (cases "addActions s1 calls")
  from Cons.prems c step rest
  have res: "rets = (case r of None \<Rightarrow> rs | Some a \<Rightarrow> a # rs)" by auto
  from Cons.IH[OF rest] have "length rs \<le> length calls" .
  then show ?case using res by (cases r) simp_all
qed

text \<open>
  Claim C1. Take any log whose retention cap is the constructor's 1000, and any run of
  \<open>addAction\<close> calls on it during which the counter stays in the range where a
  JavaScript number counts exactly (it starts at \<open>- 2^53\<close> or above and, with one step
  per call, ends at \<open>2^53\<close> or below; \<open>2^53 = 9007199254740992\<close>). The ids of the actions returned are strictly increasing,
  pairwise distinct and above the counter the run started from. After a run in which at
  least one action was appended, the log is the last 1000 entries of the old entries
  followed by the new ones: a suffix of that list, so the oldest go first, the order is
  kept and the surviving entries (their ids with them) are untouched; it holds at most
  1000 entries, and so does \<open>getActiveActions\<close>. A log whose ids were strictly
  increasing and at most its counter is so again after the run: no id in the log is
  ever taken by two entries. Every id issued is at most \<open>2^53\<close>, so the run stays where
  the model's integers are the code's numbers.
\<close>

theorem addAction_ids_increasing_and_capped:
  assumes "maxActions s = 1000" and "addActions s calls = (s', rets)"
    and "- 9007199254740992 \<le> actionIdCounter s"
    and "actionIdCounter s + int (length calls) \<le> 9007199254740992"
  shows "sorted_wrt (<) (map aid rets)
     \<and> distinct (map aid rets)
     \<and> (\<forall>r \<in> set rets. actionIdCounter s < aid r)
     \<and> (\<forall>r \<in> set rets. aid r \<le> 9007199254740992)
     \<and> (rets \<noteq> [] \<longrightarrow>
          actions s' = slice_from (- 1000) (actions s @ rets)
          \<and> (\<exists>k. actions s' = drop k (actions s @ rets))
          \<and> length (actions s') \<le> 1000
          \<and> length (getActiveActions s') \<le> 1000)
     \<and> (sorted_wrt (<) (map aid (actions s))
          \<and> (\<forall>a \<in> set (actions s). aid a \<le> actionIdCounter s) \<longrightarrow>
          sorted_wrt (<) (map aid (actions s'))
          \<and> (\<forall>a \<in> set (actions s'). aid a \<le> actionIdCounter s'))"
proof -
  note run = addActions_run[OF assms(1,2)]
  have "actionIdCounter s' = actionIdCounter s + int (length rets)" using run by simp
  moreover have "length rets \<le> length calls" using assms(2) by (rule addActions_length)
  ultimately have "actionIdCounter s' \<le> 9007199254740992" using assms(4) by linarith
  with addActions_ids_bounded[OF assms(1,2)]
  have exact: "\<forall>r \<in> set rets. aid r \<le> 9007199254740992" by fastforce
  have sorted: "sorted_wrt (<) (map aid rets)" using run by simp
  then have dist: "distinct (map aid rets)"
    using strict_sorted_iff by blast
  have above: "\<forall>r \<in> set rets. actionIdCounter s < aid r" using run by simp
  have tail: "actions s' = slice_from (- 1000) (actions s @ rets)" if "rets \<noteq> []"
    using run that by simp
  have suffix: "\<exists>k. actions s' = drop k (actions s @ rets)" if "rets \<noteq> []"
  proof -
    have "slice_from (- 1000) (actions s @ rets)
        = drop (length (actions s @ rets) - nat 1000) (actions s @ rets)"
      by (rule slice_from_neg) simp
    with tail[OF that] show ?thesis by metis
  qed
  have len: "length (actions s') \<le> 1000" if "rets \<noteq> []"
    using tail[OF that] slice_from_neg_length[of 1000 "actions s @ rets"] by simp
  have "length (getActiveActions s') \<le> length (actions s')"
    by (simp add: getActiveActions_def)
  with len have active: "length (getActiveActions s') \<le> 1000" if "rets \<noteq> []"
    using that by simp
  have order: "sorted_wrt (<) (map aid (actions s))
          \<and> (\<forall>a \<in> set (actions s). aid a \<le> actionIdCounter s) \<longrightarrow>
          sorted_wrt (<) (map aid (actions s'))
          \<and> (\<forall>a \<in> set (actions s'). aid a \<le> actionIdCounter s')"
    using log_order_kept[OF assms(1,2)] by blast
  have capped: "rets \<noteq> [] \<longrightarrow>
          actions s' = slice_from (- 1000) (actions s @ rets)
          \<and> (\<exists>k. actions s' = drop k (actions s @ rets))
          \<and> length (actions s') \<le> 1000
          \<and> length (getActiveActions s') \<le> 1000"
    using tail suffix len active by blast
  show ?thesis using sorted dist above exact capped order by - (intro conjI, assumption+)
qed

theorem addAction_ids_increasing_and_capped_witness:
  "maxActions (new_DrawingState ''ROOM'' 0 0) = 1000
   \<and> - 9007199254740992 \<le> actionIdCounter (new_DrawingState ''ROOM'' 0 0)
   \<and> actionIdCounter (new_DrawingState ''ROOM'' 0 0)
        + int (length [(1::nat, 1::nat, Some clear_arg), (2, 2, None), (3, 3, Some clear_arg)])
      \<le> 9007199254740992
   \<and> map aid (snd (addActions (new_DrawingState ''ROOM'' 0 0)
         [(1, 1, Some clear_arg), (2, 2, None), (3, 3, Some clear_arg)])) = [1, 2]
   \<and> sorted_wrt (<) (map aid (snd (addActions (new_DrawingState ''ROOM'' 0 0)
         [(1, 1, Some clear_arg), (2, 2, None), (3, 3, Some clear_arg)])))
   \<and> length (actions (fst (addActions (new_DrawingState ''ROOM'' 0 0)
         [(1, 1, Some clear_arg), (2, 2, None), (3, 3, Some clear_arg)]))) \<le> 1000"
proof -
  let ?s = "new_DrawingState ''ROOM'' 0 0"
  let ?calls = "[(1, 1, Some clear_arg), (2, 2, None), (3, 3, Some clear_arg)]"
  have h: "maxActions ?s = 1000" by (simp add: new_DrawingState_def)
  have lo: "- 9007199254740992 \<le> actionIdCounter ?s" by (simp add: new_DrawingState_def)
  have hi: "actionIdCounter ?s + int (length ?calls) \<le> 9007199254740992"
    by (simp add: new_DrawingState_def)
  have run: "addActions ?s ?calls = (fst (addActions ?s ?calls), snd (addActions ?s ?calls))"
    by simp
  have ids: "map aid (snd (addActions ?s ?calls)) = [1, 2]"
    by (simp add: addAction_def new_DrawingState_def Let_def)
  then have ne: "snd (addActions ?s ?calls) \<noteq> []" by auto
  note t = addAction_ids_increasing_and_capped[OF h run lo hi]
  have sorted: "sorted_wrt (<) (map aid (snd (addActions ?s ?calls)))"
    using t by (rule conjunct1)
  have "length (actions (fst (addActions ?s ?calls))) \<le> 1000"
    using t ne by blast
  with h lo hi ids sorted show ?thesis by - (intro conjI, assumption+)
qed

subsection \<open>The backward scan\<close>

lemma scan_down_Some:
  "scan_down test acts n = Some i \<Longrightarrow>
     i < n \<and> test (acts ! i) \<and> (\<forall>j. i < j \<and> j < n \<longrightarrow> \<not> test (acts ! j))"
proof (induction n)
  case 0
  then show ?case by simp
next
  case (Suc n)
  show ?case
  proof (cases "test (acts ! n)")
    case True
    with Suc.prems have "i = n" by simp
    with True show ?thesis by auto
  next
    case False
    with Suc.prems have "scan_down test acts n = Some i" by simp
    from Suc.IH[OF this] False show ?thesis
      by (auto simp: less_Suc_eq)
  qed
qed

lemma scan_down_None:
  "scan_down test acts n = None \<longleftrightarrow> (\<forall>j < n. \<not> test (acts ! j))"
  by (induction n) (auto simp: less_Suc_eq)

lemma scan_down_None_list:
  "scan_down test acts (length acts) = None \<longleftrightarrow> \<not> list_ex test acts"
  by (simp add: scan_down_None list_ex_length)

lemma flip_at_frame:
  assumes "i < length (actions s)" and "flip_at s i flag now = (s', r)"
  shows "r = Some ((actions s ! i)\<lparr>undone := flag\<rparr>)"
    and "s' = s\<lparr>actions := (actions s)[i := (actions s ! i)\<lparr>undone := flag\<rparr>], lastModified := now\<rparr>"
    and "length (actions s') = length (actions s)"
    and "\<And>j. j \<noteq> i \<Longrightarrow> actions s' ! j = actions s ! j"
proof -
  from assms(2)
  have eq: "s' = s\<lparr>actions := (actions s)[i := (actions s ! i)\<lparr>undone := flag\<rparr>], lastModified := now\<rparr>"
    and r: "r = Some ((actions s ! i)\<lparr>undone := flag\<rparr>)"
    by (simp_all add: flip_at_def Let_def prod_eq_iff)
  show "r = Some ((actions s ! i)\<lparr>undone := flag\<rparr>)" by (rule r)
  show "s' = s\<lparr>actions := (actions s)[i := (actions s ! i)\<lparr>undone := flag\<rparr>], lastModified := now\<rparr>"
    by (rule eq)
  show "length (actions s') = length (actions s)" by (simp add: eq)
  show "\<And>j. j \<noteq> i \<Longrightarrow> actions s' ! j = actions s ! j" by (simp add: eq)
qed

lemma sample_log_eval:
  "sample_log =
     \<lparr>roomId = ''ROOM'',
      actions =
        [\<lparr>aid = 1, userId = Some ''alice'', atype = Some ''draw-end'',
          payload = \<lparr>p_tool = Some (JStr ''brush''), p_color = Some (JStr ''#000000''),
            p_size = Some (JNum 5), p_path = Some (JArr []), p_startX = Some (JNum 0),
            p_startY = Some (JNum 0)\<rparr>, timestamp = 1, undone = False\<rparr>,
         \<lparr>aid = 2, userId = Some ''bob'', atype = Some ''draw-end'',
          payload = \<lparr>p_tool = Some (JStr ''brush''), p_color = Some (JStr ''#000000''),
            p_size = Some (JNum 5), p_path = Some (JArr []), p_startX = Some (JNum 0),
            p_startY = Some (JNum 0)\<rparr>, timestamp = 2, undone = False\<rparr>],
      actionIdCounter = 2, maxActions = 1000, createdAt = 0, lastModified = 2\<rparr>"
  by (simp add: sample_log_def addAction_def new_DrawingState_def stroke_by_def Let_def)

subsection \<open>Personal undo touches only the requester's action\<close>

text \<open>
  Claim C3. \<open>undoForUser\<close> for a user \<open>u\<close> keeps the length of the log and leaves every
  action whose \<open>userId\<close> is not \<open>u\<close> as it was, wherever it stands in the log. When it
  returns nothing, the log is unchanged and no action of \<open>u\<close> is active and not a clear.
  When it returns an action, that is the entry at the greatest index holding an active
  non-clear action of \<open>u\<close>, with \<open>undone\<close> set; the log differs from the old one in that
  entry and in \<open>lastModified\<close> only.
\<close>

theorem undoForUser_frame:
  assumes "undoForUser s u now = (s', r)"
  shows "length (actions s') = length (actions s)
     \<and> (\<forall>j < length (actions s). userId (actions s ! j) \<noteq> u \<longrightarrow> actions s' ! j = actions s ! j)
     \<and> (case r of
          None \<Rightarrow> s' = s \<and> \<not> list_ex (undoForUser_test u) (actions s)
        | Some a \<Rightarrow>
            (\<exists>i < length (actions s).
               userId (actions s ! i) = u \<and> \<not> undone (actions s ! i)
               \<and> atype (actions s ! i) \<noteq> Some ''clear''
               \<and> (\<forall>j. i < j \<and> j < length (actions s) \<longrightarrow> \<not> undoForUser_test u (actions s ! j))
               \<and> a = (actions s ! i)\<lparr>undone := True\<rparr>
               \<and> s' = s\<lparr>actions := (actions s)[i := a], lastModified := now\<rparr>))"
proof (cases "scan_down (undoForUser_test u) (actions s) (length (actions s))")
  case None
  with assms have "s' = s" "r = None" by (simp_all add: undoForUser_def)
  with None show ?thesis by (simp add: scan_down_None_list)
next
  case (Some i)
  from scan_down_Some[OF Some]
  have i: "i < length (actions s)" "undoForUser_test u (actions s ! i)"
    "\<forall>j. i < j \<and> j < length (actions s) \<longrightarrow> \<not> undoForUser_test u (actions s ! j)"
    by simp_all
  from assms Some have fl: "flip_at s i True now = (s', r)"
    by (simp add: undoForUser_def)
  note res = flip_at_frame[OF i(1) fl]
  have own: "userId (actions s ! i) = u" "\<not> undone (actions s ! i)"
    "atype (actions s ! i) \<noteq> Some ''clear''"
    using i(2) by (simp_all add: undoForUser_test_def)
  have frame: "\<forall>j < length (actions s). userId (actions s ! j) \<noteq> u \<longrightarrow> actions s' ! j = actions s ! j"
  proof (intro allI impI)
    fix j assume "j < length (actions s)" and other: "userId (actions s ! j) \<noteq> u"
    from other own(1) have "j \<noteq> i" by auto
    then show "actions s' ! j = actions s ! j" by (rule res(4))
  qed
  have found: "\<exists>k < length (actions s).
               userId (actions s ! k) = u \<and> \<not> undone (actions s ! k)
               \<and> atype (actions s ! k) \<noteq> Some ''clear''
               \<and> (\<forall>j. k < j \<and> j < length (actions s) \<longrightarrow> \<not> undoForUser_test u (actions s ! j))
               \<and> (actions s ! i)\<lparr>undone := True\<rparr> = (actions s ! k)\<lparr>undone := True\<rparr>
               \<and> s' = s\<lparr>actions := (actions s)[k := (actions s ! i)\<lparr>undone := True\<rparr>], lastModified := now\<rparr>"
    using i(1) i(3) own res(2) by blast
  show ?thesis
    unfolding res(1) option.case using res(3) frame found by blast
qed

text \<open>On the sample log alice's personal undo flags her stroke (id 1) and leaves bob's
  later stroke (id 2) active.\<close>

theorem undoForUser_frame_witness:
  "map (\<lambda>a. (aid a, undone a)) (actions (fst (undoForUser sample_log (Some ''alice'') 9)))
     = [(1, True), (2, False)]
   \<and> length (actions (fst (undoForUser sample_log (Some ''alice'') 9)))
     = length (actions sample_log)"
proof -
  let ?r = "undoForUser sample_log (Some ''alice'') 9"
  have run: "?r = (fst ?r, snd ?r)" by simp
  have flags: "map (\<lambda>a. (aid a, undone a)) (actions (fst ?r)) = [(1, True), (2, False)]"
    by (simp add: undoForUser_def sample_log_eval undoForUser_test_def flip_at_def Let_def)
  from undoForUser_frame[OF run] flags show ?thesis by blast
qed

subsection \<open>Global undo followed by redo\<close>

text \<open>
  Claim C2. The log that holds stroke 1 active and stroke 2 undone (the sample log after
  one global undo) shows stroke 1. A global undo on it flags stroke 1; the redo that
  follows scans from the newest entry, meets stroke 2 first and restores that one, so
  the log then shows stroke 2 and not stroke 1: the active actions are not those from
  before the undo.
\<close>

theorem redoGlobal_after_undoGlobal_picks_other_action:
  "map aid (getActiveActions (fst (undoGlobal sample_log 3))) = [1]
   \<and> map aid (getActiveActions
        (fst (redoGlobal (fst (undoGlobal (fst (undoGlobal sample_log 3)) 4)) 5))) = [2]"
  by (simp add: undoGlobal_def redoGlobal_def sample_log_eval undoGlobal_test_def
      redoGlobal_test_def flip_at_def Let_def getActiveActions_def)

subsection \<open>Clearing restarts the ids\<close>

lemma clear_then_marker:
  assumes "maxActions st = 1000"
  shows "fst (addAction (clear st t0) ts lm (Some clear_arg))
     = st\<lparr>actions := [\<lparr>aid = 1, userId = None, atype = Some ''clear'',
              payload = \<lparr>p_tool = None, p_color = None, p_size = None, p_path = None,
                p_startX = None, p_startY = None\<rparr>, timestamp = ts, undone = False\<rparr>],
           actionIdCounter := 1, lastModified := lm\<rparr>"
  using assms by (simp add: addAction_def clear_def clear_arg_def Let_def)

text \<open>
  Claim C4, as the code has it. \<open>clearState\<close> on a room with a log (cap 1000) leaves
  exactly the clear marker in the log, and the marker has id 1, the counter having been
  reset to 0. The ids assigned by any later run of appends are strictly increasing and
  above 1, so the ids of the actions created since the clear (the marker among them)
  are pairwise distinct. Nothing keeps them apart from the ids issued before the clear.
\<close>

theorem clearState_restarts_ids:
  assumes "mgr rid = Some st" and "maxActions st = 1000"
    and "addActions (the (Manager_clearState mgr rid t0 ts lm rid)) calls = (st', rets)"
  shows "map aid (actions (the (Manager_clearState mgr rid t0 ts lm rid))) = [1]
     \<and> map atype (actions (the (Manager_clearState mgr rid t0 ts lm rid))) = [Some ''clear'']
     \<and> actionIdCounter (the (Manager_clearState mgr rid t0 ts lm rid)) = 1
     \<and> sorted_wrt (<) (1 # map aid rets)
     \<and> distinct (1 # map aid rets)"
proof -
  let ?c = "the (Manager_clearState mgr rid t0 ts lm rid)"
  have c: "?c = fst (addAction (clear st t0) ts lm (Some clear_arg))"
    using assms(1) by (simp add: Manager_clearState_def)
  note m = clear_then_marker[OF assms(2), of t0 ts lm]
  have ids: "map aid (actions ?c) = [1]" "map atype (actions ?c) = [Some ''clear'']"
    "actionIdCounter ?c = 1" "maxActions ?c = 1000"
    using assms(2) by (simp_all add: c m)
  from addActions_run[OF ids(4) assms(3)] ids(3)
  have "sorted_wrt (<) (map aid rets)" "\<forall>r \<in> set rets. 1 < aid r" by simp_all
  then have s: "sorted_wrt (<) (1 # map aid rets)" by auto
  then have "distinct (1 # map aid rets)" using strict_sorted_iff by blast
  with s ids show ?thesis by blast
qed

theorem clearState_restarts_ids_witness:
  "(Map.empty(''ROOM'' \<mapsto> sample_log)) ''ROOM'' = Some sample_log
   \<and> maxActions sample_log = 1000
   \<and> map aid (actions (the (Manager_clearState (Map.empty(''ROOM'' \<mapsto> sample_log)) ''ROOM'' 7 8 9 ''ROOM''))) = [1]
   \<and> map aid (snd (addActions (the (Manager_clearState (Map.empty(''ROOM'' \<mapsto> sample_log)) ''ROOM'' 7 8 9 ''ROOM''))
         [(10, 10, Some (stroke_by ''bob''))])) = [2]"
proof -
  let ?m = "Map.empty(''ROOM'' \<mapsto> sample_log)"
  let ?c = "the (Manager_clearState ?m ''ROOM'' 7 8 9 ''ROOM'')"
  let ?calls = "[(10, 10, Some (stroke_by ''bob''))]"
  have h1: "?m ''ROOM'' = Some sample_log" by simp
  have h2: "maxActions sample_log = 1000" by (simp add: sample_log_eval)
  have h3: "addActions ?c ?calls = (fst (addActions ?c ?calls), snd (addActions ?c ?calls))"
    by simp
  have new: "map aid (snd (addActions ?c ?calls)) = [2]"
    by (simp add: Manager_clearState_def addAction_def clear_def clear_arg_def sample_log_eval Let_def)
  from clearState_restarts_ids[OF h1 h2 h3] h1 h2 new show ?thesis by blast
qed

text \<open>
  The claim as stated fails: the sample log has issued the ids 1 and 2, and after
  \<open>clearState\<close> the marker in the log carries id 1 again.
\<close>

theorem clear_reissues_id_counterexample:
  "map aid (actions sample_log) = [1, 2]
   \<and> map aid (actions (the
        (Manager_clearState (Map.empty(''ROOM'' \<mapsto> sample_log)) ''ROOM'' 7 8 9 ''ROOM'')))
      = [1]"
  by (simp add: Manager_clearState_def sample_log_eval addAction_def clear_def clear_arg_def Let_def)

subsection \<open>Persisting and restoring a log\<close>

text \<open>
  Claim C7. Reading back the record that \<open>toJSON\<close> wrote gives the log itself, with the
  cap set to the constructor's 1000 (the one field that is not persisted): the same
  entries, hence the same \<open>getActiveActions\<close>, and the same counter, hence the same next
  action from \<open>addAction\<close>, whatever the clock reads at load time. Through the manager:
  loading the file that \<open>saveState\<close> wrote for a room installs that log.
\<close>

theorem toJSON_fromJSON_roundtrip:
  "fromJSON (toJSON s) t0 t1 n0 n1 = s\<lparr>maxActions := 1000\<rparr>
   \<and> getActiveActions (fromJSON (toJSON s) t0 t1 n0 n1) = getActiveActions s
   \<and> actionIdCounter (fromJSON (toJSON s) t0 t1 n0 n1) = actionIdCounter s
   \<and> snd (addAction (fromJSON (toJSON s) t0 t1 n0 n1) ts lm arg) = snd (addAction s ts lm arg)
   \<and> Manager_loadState m rid
        (case Manager_saveState (m0(rid \<mapsto> s)) rid of
           None \<Rightarrow> Missing | Some data \<Rightarrow> Record data) t0 t1 n0 n1
      = (m(rid \<mapsto> s\<lparr>maxActions := 1000\<rparr>), True)"
proof -
  have rt: "fromJSON (toJSON s) t0 t1 n0 n1 = s\<lparr>maxActions := 1000\<rparr>"
    by (simp add: fromJSON_def toJSON_def new_DrawingState_def toISOString_def Let_def)
  have active: "getActiveActions (s\<lparr>maxActions := 1000\<rparr>) = getActiveActions s"
    by (simp add: getActiveActions_def)
  have next_action: "snd (addAction (s\<lparr>maxActions := 1000\<rparr>) ts lm arg) = snd (addAction s ts lm arg)"
    by (cases arg) (simp_all add: addAction_def Let_def)
  have load: "Manager_loadState m rid
        (case Manager_saveState (m0(rid \<mapsto> s)) rid of
           None \<Rightarrow> Missing | Some data \<Rightarrow> Record data) t0 t1 n0 n1
      = (m(rid \<mapsto> s\<lparr>maxActions := 1000\<rparr>), True)"
    by (simp add: Manager_loadState_def Manager_saveState_def rt)
  show ?thesis
    unfolding rt using active next_action load by simp
qed

section \<open>Properties of the room ids\<close>

lemma chars_length: "length chars = 32"
  by (simp add: chars_def)

lemma chars_avoid: "set chars \<inter> {CHR ''0'', CHR ''O'', CHR ''1'', CHR ''I''} = {}"
  by (simp add: chars_def)

lemma pick_char_in_alphabet:
  assumes "0 \<le> r" and "r < 1"
  shows "\<exists>c \<in> set chars. pick_char r = [c]"
proof -
  let ?k = "\<lfloor>r * 32\<rfloor>"
  have lo: "0 \<le> ?k" using assms(1) by simp
  have "r * 32 < 32" using assms(2) by simp
  then have hi: "?k < 32" by (simp add: floor_less_iff)
  have "nat ?k < 32" using lo hi by linarith
  then have "nat ?k < length chars" by (simp only: chars_length)
  then have "chars ! nat ?k \<in> set chars" by (rule nth_mem)
  moreover have "pick_char r = [chars ! nat ?k]"
    using lo hi by (simp add: pick_char_def chars_length Let_def)
  ultimately show ?thesis by blast
qed

lemma generateId_unfold:
  "generateId rnd = pick_char (rnd 0) @ pick_char (rnd 1) @ pick_char (rnd 2)
     @ pick_char (rnd 3) @ pick_char (rnd 4) @ pick_char (rnd 5)"
proof -
  have "[0..<6] = [0, 1, 2, 3, 4, 5::nat]" by (simp add: upt_rec)
  then show ?thesis by (simp add: generateId_def)
qed

text \<open>
  Claim C8, as the code has it. When every draw of \<^verbatim>\<open>Math.random()\<close> lies in \<open>[0, 1)\<close>,
  the generated id has six characters, all from the alphabet \<open>chars\<close>, and none of
  them is \<open>0\<close>, \<open>O\<close>, \<open>1\<close> or \<open>I\<close>. The letter \<open>L\<close> belongs to the alphabet.
\<close>

theorem generateId_alphabet:
  assumes "\<forall>i < 6. 0 \<le> rnd i \<and> rnd i < 1"
  shows "length (generateId rnd) = 6
     \<and> set (generateId rnd) \<subseteq> set chars
     \<and> CHR ''0'' \<notin> set (generateId rnd) \<and> CHR ''O'' \<notin> set (generateId rnd)
     \<and> CHR ''1'' \<notin> set (generateId rnd) \<and> CHR ''I'' \<notin> set (generateId rnd)
     \<and> CHR ''L'' \<in> set chars"
proof -
  have each: "\<exists>c \<in> set chars. pick_char (rnd i) = [c]" if "i < 6" for i
    using assms that pick_char_in_alphabet by blast
  obtain c0 c1 c2 c3 c4 c5 where
    c: "c0 \<in> set chars" "c1 \<in> set chars" "c2 \<in> set chars" "c3 \<in> set chars"
       "c4 \<in> set chars" "c5 \<in> set chars"
    and p: "pick_char (rnd 0) = [c0]" "pick_char (rnd 1) = [c1]" "pick_char (rnd 2) = [c2]"
       "pick_char (rnd 3) = [c3]" "pick_char (rnd 4) = [c4]" "pick_char (rnd 5) = [c5]"
    using each[of 0] each[of 1] each[of 2] each[of 3] each[of 4] each[of 5] by auto
  have ident: "generateId rnd = [c0, c1, c2, c3, c4, c5]"
    using p by (simp add: generateId_unfold)
  have sub: "set (generateId rnd) \<subseteq> set chars" using c by (simp add: ident)
  have len: "length (generateId rnd) = 6" by (simp add: ident)
  have "CHR ''L'' \<in> set chars" by (simp add: chars_def)
  with sub len chars_avoid show ?thesis by blast
qed

theorem generateId_alphabet_witness:
  "generateId spread_draws = ''AEJNSW''
   \<and> set (generateId spread_draws) \<subseteq> set chars
   \<and> length (generateId spread_draws) = 6"
proof -
  have h: "\<forall>i < 6. 0 \<le> spread_draws i \<and> spread_draws i < 1"
    by (simp add: spread_draws_def)
  have v: "generateId spread_draws = ''AEJNSW''"
    by (simp add: generateId_unfold pick_char_def chars_def spread_draws_def Let_def)
  from generateId_alphabet[of spread_draws, OF h] v show ?thesis by blast
qed

text \<open>The claim as stated fails: with every draw equal to \<open>5/16\<close> the index is 10 and
  the id consists of the letter \<open>L\<close> throughout.\<close>

theorem generateId_can_contain_L:
  "generateId (constant_draws (5 / 16)) = ''LLLLLL''"
  by (simp add: generateId_unfold pick_char_def chars_def constant_draws_def Let_def)

section \<open>Properties of the adaptive transmission\<close>

lemma throttle_100_200:
  assumes "getLatency cm = Some l" and "100 \<le> l" and "l < 200"
  shows "getAdaptiveThrottle cm = 32"
  using assms by (simp add: getAdaptiveThrottle_def current_latency_def Let_def)

lemma move_traffic_simps:
  "move_traffic [] = []"
  "move_traffic (xs @ ys) = move_traffic xs @ move_traffic ys"
  "move_traffic ((t, DrawMove d) # xs) = (t, DrawMove d) # move_traffic xs"
  "move_traffic ((t, DrawBatch ds) # xs) = (t, DrawBatch ds) # move_traffic xs"
  "move_traffic ((t, DrawStart d) # xs) = move_traffic xs"
  "move_traffic ((t, DrawEnd) # xs) = move_traffic xs"
  by (simp_all add: move_traffic_def)

subsection \<open>Steps while moves are sent one by one\<close>

lemma individual_start:
  assumes "individual_regime cm"
  shows "individual_regime (fst (startDrawing cm d))"
    and "isDrawing (fst (startDrawing cm d))"
    and "lastDrawEvent (fst (startDrawing cm d)) = lastDrawEvent cm"
    and "due_of (fst (startDrawing cm d)) = due_of cm"
    and "move_traffic (map (Pair t) (snd (startDrawing cm d))) = []"
  using assms
  by (auto simp: startDrawing_def individual_regime_def due_of_def move_traffic_simps
      split: option.splits)

lemma individual_send:
  assumes "individual_regime cm"
  shows "sendDrawMoveAdaptive cm d
     = cm\<lparr>pendingDrawData := Some d, rafId := Some (MoveFrame 32)\<rparr>"
proof -
  from assms obtain l where l: "getLatency cm = Some l" "100 \<le> l" "l < 150"
    by (auto simp: individual_regime_def split: option.splits)
  have th: "getAdaptiveThrottle cm = 32" using l by (intro throttle_100_200) auto
  have lat: "current_latency cm = l" using l(1) by (simp add: current_latency_def)
  have mv: "onDrawMove cm" using assms by (simp add: individual_regime_def)
  show ?thesis
  proof (cases "rafId cm")
    case None
    then show ?thesis using l(3) mv by (simp add: sendDrawMoveAdaptive_def th lat Let_def)
  next
    case (Some f)
    with assms have f: "rafId cm = Some (MoveFrame 32)"
      by (simp add: individual_regime_def)
    have "cm\<lparr>pendingDrawData := Some d\<rparr>
        = cm\<lparr>pendingDrawData := Some d, rafId := Some (MoveFrame 32)\<rparr>"
      using f by simp
    then show ?thesis using l(3) mv f by (simp add: sendDrawMoveAdaptive_def th lat Let_def)
  qed
qed

lemma individual_draw:
  assumes "individual_regime cm"
  shows "individual_regime (draw cm d)"
    and "isDrawing (draw cm d) = isDrawing cm"
    and "lastDrawEvent (draw cm d) = lastDrawEvent cm"
    and "due_of (draw cm d) = (if isDrawing cm then Some d else due_of cm)"
  using assms
  by (simp_all add: draw_def individual_send[OF assms] individual_regime_def due_of_def)

lemma individual_frame_idle:
  assumes "rafId cm = None"
  shows "animation_frame cm now = (cm, [])"
  using assms by (simp add: animation_frame_def)

lemma individual_frame_due:
  assumes "individual_regime cm" and "due_of cm = Some d"
  shows "animation_frame cm now
     = (if now - lastDrawEvent cm \<ge> 32
        then (cm\<lparr>lastDrawEvent := now, rafId := None\<rparr>, [DrawMove d])
        else (cm\<lparr>rafId := None\<rparr>, []))"
proof -
  from assms(2) obtain f where f: "rafId cm = Some f" and p: "pendingDrawData cm = Some d"
    by (auto simp: due_of_def split: option.splits)
  with assms(1) have f32: "rafId cm = Some (MoveFrame 32)" and mv: "onDrawMove cm"
    by (simp_all add: individual_regime_def)
  show ?thesis by (simp add: animation_frame_def f32 p mv)
qed

lemma individual_latency:
  assumes "individual_regime cm" and "100 \<le> l" and "l < 150"
  shows "individual_regime (cm\<lparr>getLatency := Some l\<rparr>)"
    and "due_of (cm\<lparr>getLatency := Some l\<rparr>) = due_of cm"
    and "isDrawing (cm\<lparr>getLatency := Some l\<rparr>) = isDrawing cm"
    and "lastDrawEvent (cm\<lparr>getLatency := Some l\<rparr>) = lastDrawEvent cm"
  using assms by (auto simp: individual_regime_def due_of_def split: option.splits)

lemma individual_stop:
  assumes "individual_regime cm"
  shows "individual_regime (fst (stopDrawing cm))"
    and "isDrawing (fst (stopDrawing cm)) = False"
    and "lastDrawEvent (fst (stopDrawing cm)) = lastDrawEvent cm"
    and "due_of (fst (stopDrawing cm)) = (if isDrawing cm then None else due_of cm)"
    and "move_traffic (map (Pair t) (snd (stopDrawing cm))) = []"
    and "moveBatch (fst (stopDrawing cm)) = []"
  using assms
  by (auto simp: stopDrawing_def individual_regime_def due_of_def move_traffic_simps Let_def
      split: option.splits)

subsection \<open>A run while moves are sent one by one\<close>

lemma transmit_unfold:
  "snd (transmit cm (Down t d # ins))
     = map (Pair t) (snd (startDrawing cm d)) @ snd (transmit (fst (startDrawing cm d)) ins)"
  "fst (transmit cm (Down t d # ins)) = fst (transmit (fst (startDrawing cm d)) ins)"
  "snd (transmit cm (Frame now # ins))
     = map (Pair now) (snd (animation_frame cm now)) @ snd (transmit (fst (animation_frame cm now)) ins)"
  "fst (transmit cm (Frame now # ins)) = fst (transmit (fst (animation_frame cm now)) ins)"
  "snd (transmit cm (Up t # ins))
     = map (Pair t) (snd (stopDrawing cm)) @ snd (transmit (fst (stopDrawing cm)) ins)"
  "fst (transmit cm (Up t # ins)) = fst (transmit (fst (stopDrawing cm)) ins)"
  by (simp_all split: prod.splits)

lemma individual_no_due:
  assumes "individual_regime cm" and "due_of cm = None"
  shows "rafId cm = None"
  using assms by (auto simp: individual_regime_def due_of_def split: option.splits)

lemma individual_after_frame:
  assumes "individual_regime cm"
  shows "individual_regime (cm\<lparr>lastDrawEvent := now, rafId := None\<rparr>)"
    and "individual_regime (cm\<lparr>rafId := None\<rparr>)"
    and "due_of (cm\<lparr>lastDrawEvent := now, rafId := None\<rparr>) = None"
    and "due_of (cm\<lparr>rafId := None\<rparr>) = None"
  using assms by (simp_all add: individual_regime_def due_of_def)

lemma transmit_individual_policy:
  "individual_regime cm \<Longrightarrow> list_all (\<lambda>x. 100 \<le> x \<and> x < 150) (latencies ins) \<Longrightarrow>
     move_traffic (snd (transmit cm ins))
       = individual_policy (isDrawing cm) (lastDrawEvent cm) (due_of cm) ins
     \<and> moveBatch (fst (transmit cm ins)) = []"
proof (induction ins arbitrary: cm)
  case Nil
  then show ?case by (simp add: move_traffic_simps individual_regime_def)
next
  case (Cons i ins)
  note reg = Cons.prems(1)
  show ?case
  proof (cases i)
    case (Down t d)
    with Cons.prems(2) have lat: "list_all (\<lambda>x. 100 \<le> x \<and> x < 150) (latencies ins)" by simp
    note st = individual_start[OF reg]
    from Cons.IH[OF st(1) lat] st show ?thesis
      by (simp add: Down transmit_unfold move_traffic_simps del: transmit.simps)
  next
    case (Move d)
    with Cons.prems(2) have lat: "list_all (\<lambda>x. 100 \<le> x \<and> x < 150) (latencies ins)" by simp
    note dr = individual_draw[OF reg]
    from Cons.IH[OF dr(1) lat] dr show ?thesis
      by (simp add: Move)
  next
    case (Frame now)
    with Cons.prems(2) have lat: "list_all (\<lambda>x. 100 \<le> x \<and> x < 150) (latencies ins)" by simp
    show ?thesis
    proof (cases "due_of cm")
      case None
      then have idle: "animation_frame cm now = (cm, [])"
        using individual_no_due[OF reg] individual_frame_idle by blast
      from Cons.IH[OF reg lat] show ?thesis
        by (simp add: Frame transmit_unfold idle None move_traffic_simps del: transmit.simps)
    next
      case (Some d)
      note fr = individual_frame_due[OF reg Some]
      note af = individual_after_frame[OF reg]
      show ?thesis
      proof (cases "now - lastDrawEvent cm \<ge> 32")
        case True
        from Cons.IH[OF af(1) lat] show ?thesis
          by (simp add: Frame transmit_unfold fr True Some af(3) move_traffic_simps
              del: transmit.simps)
      next
        case False
        from Cons.IH[OF af(2) lat] show ?thesis
          by (simp add: Frame transmit_unfold fr False Some af(4) move_traffic_simps
              del: transmit.simps)
      qed
    qed
  next
    case (Up t)
    with Cons.prems(2) have lat: "list_all (\<lambda>x. 100 \<le> x \<and> x < 150) (latencies ins)" by simp
    note sp = individual_stop[OF reg]
    from Cons.IH[OF sp(1) lat] sp show ?thesis
      by (simp add: Up transmit_unfold move_traffic_simps del: transmit.simps)
  next
    case (Latency l)
    with Cons.prems(2) have l: "100 \<le> l" "l < 150"
      and lat: "list_all (\<lambda>x. 100 \<le> x \<and> x < 150) (latencies ins)" by simp_all
    note lt = individual_latency[OF reg l]
    from Cons.IH[OF lt(1) lat] lt(2) show ?thesis
      by (simp add: Latency)
  qed
qed

lemma traffic_kept:
  "has_batch (move_traffic sends) = has_batch sends"
  "single_times (move_traffic sends) = single_times sends"
  "batched (move_traffic sends) = batched sends"
proof -
  have "has_batch (move_traffic sends) = has_batch sends
      \<and> single_times (move_traffic sends) = single_times sends
      \<and> batched (move_traffic sends) = batched sends"
  proof (induction sends)
    case Nil
    show ?case by (simp add: move_traffic_def)
  next
    case (Cons x sends)
    obtain t m where x: "x = (t, m)" by (cases x)
    from Cons show ?case by (cases m) (simp_all add: x move_traffic_def)
  qed
  then show "has_batch (move_traffic sends) = has_batch sends"
    and "single_times (move_traffic sends) = single_times sends"
    and "batched (move_traffic sends) = batched sends" by simp_all
qed

lemma traffic_append:
  "has_batch (xs @ ys) = (has_batch xs \<or> has_batch ys)"
  "single_times (xs @ ys) = single_times xs @ single_times ys"
  "batched (xs @ ys) = batched xs @ batched ys"
proof -
  have "has_batch (xs @ ys) = (has_batch xs \<or> has_batch ys)
      \<and> single_times (xs @ ys) = single_times xs @ single_times ys
      \<and> batched (xs @ ys) = batched xs @ batched ys"
  proof (induction xs)
    case Nil
    show ?case by simp
  next
    case (Cons x xs)
    obtain t m where x: "x = (t, m)" by (cases x)
    from Cons show ?case by (cases m) (simp_all add: x)
  qed
  then show "has_batch (xs @ ys) = (has_batch xs \<or> has_batch ys)"
    and "single_times (xs @ ys) = single_times xs @ single_times ys"
    and "batched (xs @ ys) = batched xs @ batched ys" by simp_all
qed

lemma individual_policy_shape:
  "\<not> has_batch (individual_policy drawing prev due ins)
   \<and> successively (\<lambda>a b. b - a \<ge> 32)
        (prev # single_times (individual_policy drawing prev due ins))"
proof (induction ins arbitrary: drawing prev due)
  case Nil
  show ?case by simp
next
  case (Cons i ins)
  show ?case
  proof (cases i)
    case (Down t d)
    with Cons show ?thesis by simp
  next
    case (Move d)
    with Cons show ?thesis by simp
  next
    case (Frame now)
    show ?thesis
    proof (cases due)
      case None
      with Cons Frame show ?thesis by simp
    next
      case (Some d)
      with Cons[of drawing now None] Cons[of drawing prev None] Frame show ?thesis by simp
    qed
  next
    case (Up t)
    with Cons show ?thesis by simp
  next
    case (Latency l)
    with Cons show ?thesis by simp
  qed
qed

subsection \<open>Steps while moves are batched\<close>

lemma batching_start:
  assumes "batching_regime cm"
  shows "batching_regime (fst (startDrawing cm d))"
    and "isDrawing (fst (startDrawing cm d))"
    and "lastDrawEvent (fst (startDrawing cm d)) = lastDrawEvent cm"
    and "moveBatch (fst (startDrawing cm d)) = moveBatch cm"
    and "rafId (fst (startDrawing cm d)) = rafId cm"
    and "move_traffic (map (Pair t) (snd (startDrawing cm d))) = []"
    and "batched (map (Pair t) (snd (startDrawing cm d))) = []"
    and "single_times (map (Pair t) (snd (startDrawing cm d))) = []"
  using assms
  by (auto simp: startDrawing_def batching_regime_def move_traffic_simps split: option.splits)

lemma batching_send:
  assumes "batching_regime cm"
  shows "sendDrawMoveAdaptive cm d
     = cm\<lparr>pendingDrawData := Some d, moveBatch := moveBatch cm @ [d],
          rafId := Some (BatchFrame 32)\<rparr>"
proof -
  from assms obtain l where l: "getLatency cm = Some l" "150 \<le> l" "l < 200"
    by (auto simp: batching_regime_def split: option.splits)
  have th: "getAdaptiveThrottle cm = 32" using l by (intro throttle_100_200) auto
  have lat: "current_latency cm = l" using l(1) by (simp add: current_latency_def)
  have cb: "onDrawBatch cm" using assms by (simp add: batching_regime_def)
  show ?thesis
  proof (cases "rafId cm")
    case None
    then show ?thesis using l(2) cb by (simp add: sendDrawMoveAdaptive_def th lat Let_def)
  next
    case (Some f)
    with assms have f: "rafId cm = Some (BatchFrame 32)"
      by (simp add: batching_regime_def)
    have "cm\<lparr>pendingDrawData := Some d, moveBatch := moveBatch cm @ [d]\<rparr>
        = cm\<lparr>pendingDrawData := Some d, moveBatch := moveBatch cm @ [d],
             rafId := Some (BatchFrame 32)\<rparr>"
      using f by simp
    then show ?thesis using l(2) cb f by (simp add: sendDrawMoveAdaptive_def th lat Let_def)
  qed
qed

lemma batching_draw:
  assumes "batching_regime cm"
  shows "batching_regime (draw cm d)"
    and "isDrawing (draw cm d) = isDrawing cm"
    and "lastDrawEvent (draw cm d) = lastDrawEvent cm"
    and "moveBatch (draw cm d) = (if isDrawing cm then moveBatch cm @ [d] else moveBatch cm)"
    and "(rafId (draw cm d) \<noteq> None) = (isDrawing cm \<or> rafId cm \<noteq> None)"
  using assms
  by (simp_all add: draw_def batching_send[OF assms] batching_regime_def)

lemma batching_frame:
  assumes "batching_regime cm"
  shows "animation_frame cm now
     = (if rafId cm \<noteq> None \<and> now - lastDrawEvent cm \<ge> 32 \<and> moveBatch cm \<noteq> []
        then (cm\<lparr>moveBatch := [], lastDrawEvent := now, rafId := None\<rparr>,
              [DrawBatch (moveBatch cm)])
        else (cm\<lparr>rafId := None\<rparr>, []))"
proof (cases "rafId cm")
  case None
  then have "cm\<lparr>rafId := None\<rparr> = cm" by simp
  with None show ?thesis by (simp add: animation_frame_def)
next
  case (Some f)
  with assms have f: "rafId cm = Some (BatchFrame 32)" and cb: "onDrawBatch cm"
    by (simp_all add: batching_regime_def)
  show ?thesis by (simp add: animation_frame_def f cb)
qed

lemma batching_after_frame:
  assumes "batching_regime cm"
  shows "batching_regime (cm\<lparr>moveBatch := [], lastDrawEvent := now, rafId := None\<rparr>)"
    and "batching_regime (cm\<lparr>rafId := None\<rparr>)"
  using assms by (simp_all add: batching_regime_def)

lemma batching_latency:
  assumes "batching_regime cm" and "150 \<le> l" and "l < 200"
  shows "batching_regime (cm\<lparr>getLatency := Some l\<rparr>)"
  using assms by (auto simp: batching_regime_def split: option.splits)

lemma batching_stop:
  assumes "batching_regime cm"
  shows "batching_regime (fst (stopDrawing cm))"
    and "isDrawing (fst (stopDrawing cm)) = False"
    and "lastDrawEvent (fst (stopDrawing cm)) = lastDrawEvent cm"
    and "moveBatch (fst (stopDrawing cm)) = (if isDrawing cm then [] else moveBatch cm)"
    and "(rafId (fst (stopDrawing cm)) \<noteq> None) = (\<not> isDrawing cm \<and> rafId cm \<noteq> None)"
    and "move_traffic (map (Pair t) (snd (stopDrawing cm)))
         = (if isDrawing cm \<and> moveBatch cm \<noteq> [] then [(t, DrawBatch (moveBatch cm))] else [])"
    and "batched (map (Pair t) (snd (stopDrawing cm)))
         = (if isDrawing cm then moveBatch cm else [])"
    and "single_times (map (Pair t) (snd (stopDrawing cm))) = []"
  using assms
  by (auto simp: stopDrawing_def batching_regime_def move_traffic_simps Let_def
      split: option.splits)

subsection \<open>A run while moves are batched\<close>

lemma transmit_batching_policy:
  "batching_regime cm \<Longrightarrow> list_all (\<lambda>x. 150 \<le> x \<and> x < 200) (latencies ins) \<Longrightarrow>
     move_traffic (snd (transmit cm ins))
       = batching_policy (isDrawing cm) (lastDrawEvent cm) (moveBatch cm) (rafId cm \<noteq> None) ins
     \<and> single_times (snd (transmit cm ins)) = []
     \<and> batched (snd (transmit cm ins)) @ moveBatch (fst (transmit cm ins))
       = moveBatch cm @ accepted (isDrawing cm) ins"
proof (induction ins arbitrary: cm)
  case Nil
  show ?case by (simp add: move_traffic_simps)
next
  case (Cons i ins)
  note reg = Cons.prems(1)
  show ?case
  proof (cases i)
    case (Down t d)
    with Cons.prems(2) have lat: "list_all (\<lambda>x. 150 \<le> x \<and> x < 200) (latencies ins)" by simp
    note st = batching_start[OF reg]
    from Cons.IH[OF st(1) lat] st show ?thesis
      by (simp add: Down transmit_unfold move_traffic_simps traffic_append del: transmit.simps)
  next
    case (Move d)
    with Cons.prems(2) have lat: "list_all (\<lambda>x. 150 \<le> x \<and> x < 200) (latencies ins)" by simp
    note dr = batching_draw[OF reg]
    from Cons.IH[OF dr(1) lat] dr show ?thesis
      by (simp add: Move)
  next
    case (Frame now)
    with Cons.prems(2) have lat: "list_all (\<lambda>x. 150 \<le> x \<and> x < 200) (latencies ins)" by simp
    note fr = batching_frame[OF reg]
    note af = batching_after_frame[OF reg]
    show ?thesis
    proof (cases "rafId cm \<noteq> None \<and> now - lastDrawEvent cm \<ge> 32 \<and> moveBatch cm \<noteq> []")
      case True
      have eq: "animation_frame cm now
          = (cm\<lparr>moveBatch := [], lastDrawEvent := now, rafId := None\<rparr>,
             [DrawBatch (moveBatch cm)])"
        using True by (simp add: fr)
      have pol: "batching_policy (isDrawing cm) (lastDrawEvent cm) (moveBatch cm)
            (rafId cm \<noteq> None) (Frame now # ins)
          = (now, DrawBatch (moveBatch cm)) # batching_policy (isDrawing cm) now [] False ins"
        using True by simp
      from Cons.IH[OF af(1) lat, of now] show ?thesis
        unfolding Frame pol transmit_unfold eq
        by (simp add: move_traffic_simps traffic_append del: transmit.simps)
    next
      case False
      have eq: "animation_frame cm now = (cm\<lparr>rafId := None\<rparr>, [])"
        using False by (simp add: fr)
      have pol: "batching_policy (isDrawing cm) (lastDrawEvent cm) (moveBatch cm)
            (rafId cm \<noteq> None) (Frame now # ins)
          = batching_policy (isDrawing cm) (lastDrawEvent cm) (moveBatch cm) False ins"
        using False by auto
      from Cons.IH[OF af(2) lat] show ?thesis
        unfolding Frame pol transmit_unfold eq
        by (simp add: move_traffic_simps traffic_append del: transmit.simps)
    qed
  next
    case (Up t)
    with Cons.prems(2) have lat: "list_all (\<lambda>x. 150 \<le> x \<and> x < 200) (latencies ins)" by simp
    note sp = batching_stop[OF reg]
    from Cons.IH[OF sp(1) lat] sp show ?thesis
      by (simp add: Up transmit_unfold move_traffic_simps traffic_append del: transmit.simps)
  next
    case (Latency l)
    with Cons.prems(2) have l: "150 \<le> l" "l < 200"
      and lat: "list_all (\<lambda>x. 150 \<le> x \<and> x < 200) (latencies ins)" by simp_all
    note lt = batching_latency[OF reg l]
    from Cons.IH[OF lt lat] show ?thesis
      by (simp add: Latency)
  qed
qed

lemma stop_leaves_idle:
  assumes "isDrawing c" and "onDrawBatch c"
  shows "rafId (fst (stopDrawing c)) = None \<and> moveBatch (fst (stopDrawing c)) = []"
  using assms by (simp add: stopDrawing_def Let_def)

text \<open>
  Claim C9, as the code has it. Take a controller with no frame pending and an empty
  batch (the state after construction and after the end of every stroke, see the last
  part), and any sequence of pointer events, frames and latency updates.

  When the latency is, and stays, from 100 up to, but not including, 150 and the move
  callback is set, the throttle is 32 and the \<^verbatim>\<open>draw-move\<close> and \<^verbatim>\<open>draw-batch\<close>
  messages sent are exactly those of \<open>individual_policy\<close>: a frame sends the latest
  move of the open stroke as one \<^verbatim>\<open>draw-move\<close> when at least 32 ms have passed since
  the previous send, and sends nothing otherwise, the moves before the latest being
  dropped. No \<^verbatim>\<open>draw-batch\<close> is sent, the batch stays empty, and consecutive
  \<^verbatim>\<open>draw-move\<close> messages are at least 32 ms apart.

  When the latency is, and stays, from 150 up to, but not including, 200 and the batch
  callback is set, the throttle is 32 as well and the messages are exactly those of
  \<open>batching_policy\<close>: every move of an open stroke is appended to the batch, which a
  frame sends as one \<^verbatim>\<open>draw-batch\<close> when at least 32 ms have passed since the
  previous flush by a frame, and which the end of the stroke sends at once. No single
  \<^verbatim>\<open>draw-move\<close> is sent, and the batches sent, followed by what is still in the batch,
  are the moves of the open strokes, each once and in order.

  Ending a stroke with the batch callback set leaves no frame pending and the batch
  empty.
\<close>

theorem adaptive_transmission_policies:
  assumes "getLatency cm = Some l" and "rafId cm = None" and "moveBatch cm = []"
    and "transmit cm ins = (cm', sends)"
  shows "(list_all (\<lambda>x. 100 \<le> x \<and> x < 150) (l # latencies ins) \<and> onDrawMove cm \<longrightarrow>
            getAdaptiveThrottle cm = 32
          \<and> move_traffic sends = individual_policy (isDrawing cm) (lastDrawEvent cm) None ins
          \<and> \<not> has_batch sends
          \<and> moveBatch cm' = []
          \<and> successively (\<lambda>a b. b - a \<ge> 32) (lastDrawEvent cm # single_times sends))
     \<and> (list_all (\<lambda>x. 150 \<le> x \<and> x < 200) (l # latencies ins) \<and> onDrawBatch cm \<longrightarrow>
            getAdaptiveThrottle cm = 32
          \<and> move_traffic sends = batching_policy (isDrawing cm) (lastDrawEvent cm) [] False ins
          \<and> single_times sends = []
          \<and> batched sends @ moveBatch cm' = accepted (isDrawing cm) ins)
     \<and> (\<forall>c :: 'a CanvasManager. isDrawing c \<and> onDrawBatch c \<longrightarrow>
            rafId (fst (stopDrawing c)) = None \<and> moveBatch (fst (stopDrawing c)) = [])"
proof (intro conjI impI allI)
  assume a: "list_all (\<lambda>x. 100 \<le> x \<and> x < 150) (l # latencies ins) \<and> onDrawMove cm"
  then have l: "100 \<le> l" "l < 150"
    and lat: "list_all (\<lambda>x. 100 \<le> x \<and> x < 150) (latencies ins)" by simp_all
  have reg: "individual_regime cm"
    using a l assms(1-3) by (simp add: individual_regime_def)
  have due: "due_of cm = None" using assms(2) by (simp add: due_of_def)
  note pol = transmit_individual_policy[OF reg lat]
  have traffic: "move_traffic sends
      = individual_policy (isDrawing cm) (lastDrawEvent cm) None ins"
    using pol assms(4) due by simp
  show "getAdaptiveThrottle cm = 32" using assms(1) l by (intro throttle_100_200) auto
  show "move_traffic sends = individual_policy (isDrawing cm) (lastDrawEvent cm) None ins"
    by (rule traffic)
  show "moveBatch cm' = []" using pol assms(4) by simp
  note shape = individual_policy_shape[of "isDrawing cm" "lastDrawEvent cm" None ins]
  have "has_batch sends = has_batch (move_traffic sends)" by (simp only: traffic_kept)
  also have "\<dots> = has_batch (individual_policy (isDrawing cm) (lastDrawEvent cm) None ins)"
    by (simp only: traffic)
  finally show "\<not> has_batch sends" using shape by simp
  have "single_times sends = single_times (move_traffic sends)" by (simp only: traffic_kept)
  also have "\<dots> = single_times (individual_policy (isDrawing cm) (lastDrawEvent cm) None ins)"
    by (simp only: traffic)
  finally show "successively (\<lambda>a b. b - a \<ge> 32) (lastDrawEvent cm # single_times sends)"
    using shape by simp
next
  assume a: "list_all (\<lambda>x. 150 \<le> x \<and> x < 200) (l # latencies ins) \<and> onDrawBatch cm"
  then have l: "150 \<le> l" "l < 200"
    and lat: "list_all (\<lambda>x. 150 \<le> x \<and> x < 200) (latencies ins)" by simp_all
  have reg: "batching_regime cm"
    using a l assms(1,2) by (simp add: batching_regime_def)
  note pol = transmit_batching_policy[OF reg lat]
  show "getAdaptiveThrottle cm = 32" using assms(1) l by (intro throttle_100_200) auto
  show "move_traffic sends = batching_policy (isDrawing cm) (lastDrawEvent cm) [] False ins"
    using pol assms(2,3,4) by simp
  show "single_times sends = []" using pol assms(4) by simp
  show "batched sends @ moveBatch cm' = accepted (isDrawing cm) ins"
    using pol assms(3,4) by simp
next
  fix c :: "'a CanvasManager"
  assume "isDrawing c \<and> onDrawBatch c"
  then show "rafId (fst (stopDrawing c)) = None" using stop_leaves_idle by blast
next
  fix c :: "'a CanvasManager"
  assume "isDrawing c \<and> onDrawBatch c"
  then show "moveBatch (fst (stopDrawing c)) = []" using stop_leaves_idle by blast
qed

lemma stroke_at_120:
  "transmit (idle_canvas 120)
     [Down 0 (0, 0), Move (1, 1), Frame 40, Latency 130, Move (2, 2), Frame 50, Up 60]
   = (\<lparr>isDrawing = False, lastDrawEvent = 40, pendingDrawData = None, rafId = None,
       moveBatch = [], getLatency = Some 130, onDrawStart = True, onDrawMove = True,
       onDrawBatch = True, onDrawEnd = True\<rparr>,
      [(0, DrawStart (0, 0)), (40, DrawMove (1, 1)), (60, DrawEnd)])"
  by (simp add: idle_canvas_def startDrawing_def draw_def stopDrawing_def
      sendDrawMoveAdaptive_def animation_frame_def getAdaptiveThrottle_def
      current_latency_def Let_def)

lemma stroke_at_180:
  "transmit (idle_canvas 180)
     [Down 0 (0, 0), Move (1, 1), Move (2, 2), Frame 1000, Move (3, 3), Up 1010]
   = (\<lparr>isDrawing = False, lastDrawEvent = 1000, pendingDrawData = None, rafId = None,
       moveBatch = [], getLatency = Some 180, onDrawStart = True, onDrawMove = True,
       onDrawBatch = True, onDrawEnd = True\<rparr>,
      [(0, DrawStart (0, 0)), (1000, DrawBatch [(1, 1), (2, 2)]),
       (1010, DrawBatch [(3, 3)]), (1010, DrawEnd)])"
  by (simp add: idle_canvas_def startDrawing_def draw_def stopDrawing_def
      sendDrawMoveAdaptive_def animation_frame_def getAdaptiveThrottle_def
      current_latency_def Let_def)

text \<open>Two strokes on the idle sample canvas: one at a latency of 120, then 130, and one
  at a latency of 180.\<close>

theorem adaptive_transmission_policies_witness:
  "getLatency (idle_canvas 120) = Some 120 \<and> rafId (idle_canvas 120) = None
   \<and> moveBatch (idle_canvas 120) = []
   \<and> list_all (\<lambda>x. 100 \<le> x \<and> x < 150)
        (120 # latencies
           [Down 0 (0::real, 0::real), Move (1, 1), Frame 40, Latency 130, Move (2, 2),
            Frame 50, Up 60])
   \<and> onDrawMove (idle_canvas 120)
   \<and> snd (transmit (idle_canvas 120)
        [Down 0 (0, 0), Move (1, 1), Frame 40, Latency 130, Move (2, 2), Frame 50, Up 60])
      = [(0, DrawStart (0, 0)), (40, DrawMove (1, 1)), (60, DrawEnd)]
   \<and> move_traffic [(0::real, DrawStart (0::real, 0::real)), (40, DrawMove (1, 1)), (60, DrawEnd)]
      = individual_policy (isDrawing (idle_canvas 120)) (lastDrawEvent (idle_canvas 120)) None
          [Down 0 (0, 0), Move (1, 1), Frame 40, Latency 130, Move (2, 2), Frame 50, Up 60]
   \<and> getLatency (idle_canvas 180) = Some 180 \<and> rafId (idle_canvas 180) = None
   \<and> moveBatch (idle_canvas 180) = []
   \<and> list_all (\<lambda>x. 150 \<le> x \<and> x < 200)
        (180 # latencies
           [Down 0 (0::real, 0::real), Move (1, 1), Move (2, 2), Frame 1000, Move (3, 3),
            Up 1010])
   \<and> onDrawBatch (idle_canvas 180)
   \<and> snd (transmit (idle_canvas 180)
        [Down 0 (0, 0), Move (1, 1), Move (2, 2), Frame 1000, Move (3, 3), Up 1010])
      = [(0, DrawStart (0, 0)), (1000, DrawBatch [(1, 1), (2, 2)]),
         (1010, DrawBatch [(3, 3)]), (1010, DrawEnd)]
   \<and> move_traffic [(0::real, DrawStart (0::real, 0::real)), (1000, DrawBatch [(1, 1), (2, 2)]),
         (1010, DrawBatch [(3, 3)]), (1010, DrawEnd)]
      = batching_policy (isDrawing (idle_canvas 180)) (lastDrawEvent (idle_canvas 180)) [] False
          [Down 0 (0, 0), Move (1, 1), Move (2, 2), Frame 1000, Move (3, 3), Up 1010]
   \<and> isDrawing (fst (startDrawing (idle_canvas 180) (0, 0)))
   \<and> onDrawBatch (fst (startDrawing (idle_canvas 180) (0, 0)))
   \<and> rafId (fst (stopDrawing (fst (startDrawing (idle_canvas 180) (0, 0))))) = None
   \<and> moveBatch (fst (stopDrawing (fst (startDrawing (idle_canvas 180) (0, 0))))) = []"
proof -
  have h: "getLatency (idle_canvas 120) = Some 120" "rafId (idle_canvas 120) = None"
    "moveBatch (idle_canvas 120) = []"
    by (simp_all add: idle_canvas_def)
  have r1: "list_all (\<lambda>x. 100 \<le> x \<and> x < 150)
        (120 # latencies
           [Down 0 (0::real, 0::real), Move (1, 1), Frame 40, Latency 130, Move (2, 2),
            Frame 50, Up 60])"
    by simp
  have c1: "onDrawMove (idle_canvas 120)" by (simp add: idle_canvas_def)
  have k: "getLatency (idle_canvas 180) = Some 180" "rafId (idle_canvas 180) = None"
    "moveBatch (idle_canvas 180) = []"
    by (simp_all add: idle_canvas_def)
  have r2: "list_all (\<lambda>x. 150 \<le> x \<and> x < 200)
        (180 # latencies
           [Down 0 (0::real, 0::real), Move (1, 1), Move (2, 2), Frame 1000, Move (3, 3),
            Up 1010])"
    by simp
  have c2: "onDrawBatch (idle_canvas 180)" by (simp add: idle_canvas_def)
  note t1 = adaptive_transmission_policies[OF h stroke_at_120,
      THEN conjunct1, THEN mp, OF conjI[OF r1 c1], THEN conjunct2, THEN conjunct1]
  note t2 = adaptive_transmission_policies[OF k stroke_at_180,
      THEN conjunct2, THEN conjunct1, THEN mp, OF conjI[OF r2 c2], THEN conjunct2,
      THEN conjunct1]
  have e1: "snd (transmit (idle_canvas 120)
        [Down 0 (0, 0), Move (1, 1), Frame 40, Latency 130, Move (2, 2), Frame 50, Up 60])
      = [(0, DrawStart (0, 0)), (40, DrawMove (1, 1)), (60, DrawEnd)]"
    by (simp only: stroke_at_120 snd_conv)
  have e2: "snd (transmit (idle_canvas 180)
        [Down 0 (0, 0), Move (1, 1), Move (2, 2), Frame 1000, Move (3, 3), Up 1010])
      = [(0, DrawStart (0, 0)), (1000, DrawBatch [(1, 1), (2, 2)]),
         (1010, DrawBatch [(3, 3)]), (1010, DrawEnd)]"
    by (simp only: stroke_at_180 snd_conv)
  have d: "isDrawing (fst (startDrawing (idle_canvas 180) (0, 0)))"
    "onDrawBatch (fst (startDrawing (idle_canvas 180) (0, 0)))"
    by (simp_all add: startDrawing_def idle_canvas_def)
  note t3 = adaptive_transmission_policies[OF k stroke_at_180,
      THEN conjunct2, THEN conjunct2, THEN spec, THEN mp, OF conjI[OF d]]
  have i1: "rafId (fst (stopDrawing (fst (startDrawing (idle_canvas 180) (0, 0))))) = None"
    using t3 by (rule conjunct1)
  have i2: "moveBatch (fst (stopDrawing (fst (startDrawing (idle_canvas 180) (0, 0))))) = []"
    using t3 by (rule conjunct2)
  show ?thesis
    using h r1 c1 e1 t1 k r2 c2 e2 t2 d i1 i2 by - (intro conjI, assumption+)
qed

text \<open>
  The claim as stated fails. At a latency of 180 the moves \<open>(1,1)\<close> and \<open>(2,2)\<close> leave in
  one \<^verbatim>\<open>draw-batch\<close>, and \<open>(3,3)\<close> in another at the end of the stroke; no
  \<^verbatim>\<open>draw-move\<close> is sent. At a latency of 120 the move \<open>(2,2)\<close>, whose frame comes
  10 ms after the previous send, is never sent at all. And a move batched at a latency
  of 160 is still sent in a \<^verbatim>\<open>draw-batch\<close> by its frame after the latency has become
  120.
\<close>

theorem batched_or_superseded_counterexample:
  "getLatency (idle_canvas 180) = Some 180
   \<and> snd (transmit (idle_canvas 180)
        [Down 0 (0, 0), Move (1, 1), Move (2, 2), Frame 1000, Move (3, 3), Up 1010])
      = [(0, DrawStart (0, 0)), (1000, DrawBatch [(1, 1), (2, 2)]),
         (1010, DrawBatch [(3, 3)]), (1010, DrawEnd)]
   \<and> getLatency (idle_canvas 120) = Some 120
   \<and> snd (transmit (idle_canvas 120)
        [Down 0 (0, 0), Move (1, 1), Frame 40, Move (2, 2), Frame 50, Up 60])
      = [(0, DrawStart (0, 0)), (40, DrawMove (1, 1)), (60, DrawEnd)]
   \<and> snd (transmit (idle_canvas 160)
        [Down 0 (0, 0), Move (1, 1), Latency 120, Frame 1000])
      = [(0, DrawStart (0, 0)), (1000, DrawBatch [(1, 1)])]
   \<and> getLatency (fst (transmit (idle_canvas 160)
        [Down 0 (0, 0), Move (1, 1), Latency 120, Frame 1000])) = Some 120"
  by (simp add: idle_canvas_def startDrawing_def draw_def stopDrawing_def
      sendDrawMoveAdaptive_def animation_frame_def getAdaptiveThrottle_def
      current_latency_def Let_def)

section \<open>Properties of the message router\<close>

lemma undoGlobal_noop:
  "\<not> list_ex undoGlobal_test (actions st) \<Longrightarrow> undoGlobal st now = (st, None)"
  by (simp add: undoGlobal_def scan_down_None_list[symmetric])

lemma undoForUser_noop:
  "\<not> list_ex (undoForUser_test u) (actions st) \<Longrightarrow> undoForUser st u now = (st, None)"
  by (simp add: undoForUser_def scan_down_None_list[symmetric])

lemma redoGlobal_noop:
  "\<not> list_ex redoGlobal_test (actions st) \<Longrightarrow> redoGlobal st now = (st, None)"
  by (simp add: redoGlobal_def scan_down_None_list[symmetric])

lemma rebuild_and_save_noop:
  "rebuild_and_save srv ws rid kind (states srv, None) = (srv, [])"
  by (simp add: rebuild_and_save_def)

lemma handleUndoGlobal_noop:
  assumes "nothing_eligible undoGlobal_test srv ws"
  shows "handleUndoGlobal srv ws now = (srv, [])"
proof (cases "room_of ws")
  case None
  then show ?thesis by (simp add: handleUndoGlobal_def)
next
  case (Some rid)
  show ?thesis
  proof (cases "states srv rid")
    case None
    with Some show ?thesis
      by (simp add: handleUndoGlobal_def Manager_undoGlobal_def rebuild_and_save_noop)
  next
    case st: (Some st)
    with assms Some have "\<not> list_ex undoGlobal_test (actions st)"
      by (simp add: nothing_eligible_def)
    then have "undoGlobal st now = (st, None)" by (rule undoGlobal_noop)
    moreover have "(states srv)(rid \<mapsto> st) = states srv" using st by (rule map_upd_triv)
    ultimately have "Manager_undoGlobal (states srv) rid now = (states srv, None)"
      using st by (simp add: Manager_undoGlobal_def)
    with Some show ?thesis
      by (simp add: handleUndoGlobal_def rebuild_and_save_noop)
  qed
qed

lemma handleUndoMy_noop:
  assumes "nothing_eligible (undoForUser_test (Some (ws_id ws))) srv ws"
  shows "handleUndoMy srv ws now = (srv, [])"
proof (cases "room_of ws")
  case None
  then show ?thesis by (simp add: handleUndoMy_def)
next
  case (Some rid)
  show ?thesis
  proof (cases "states srv rid")
    case None
    with Some show ?thesis
      by (simp add: handleUndoMy_def Manager_undoForUser_def rebuild_and_save_noop)
  next
    case st: (Some st)
    with assms Some have "\<not> list_ex (undoForUser_test (Some (ws_id ws))) (actions st)"
      by (simp add: nothing_eligible_def)
    then have "undoForUser st (Some (ws_id ws)) now = (st, None)" by (rule undoForUser_noop)
    moreover have "(states srv)(rid \<mapsto> st) = states srv" using st by (rule map_upd_triv)
    ultimately have "Manager_undoForUser (states srv) rid (Some (ws_id ws)) now = (states srv, None)"
      using st by (simp add: Manager_undoForUser_def)
    with Some show ?thesis
      by (simp add: handleUndoMy_def rebuild_and_save_noop)
  qed
qed

lemma handleRedoGlobal_noop:
  assumes "nothing_eligible redoGlobal_test srv ws"
  shows "handleRedoGlobal srv ws now = (srv, [])"
proof (cases "room_of ws")
  case None
  then show ?thesis by (simp add: handleRedoGlobal_def)
next
  case (Some rid)
  show ?thesis
  proof (cases "states srv rid")
    case None
    with Some show ?thesis
      by (simp add: handleRedoGlobal_def Manager_redoGlobal_def rebuild_and_save_noop)
  next
    case st: (Some st)
    with assms Some have "\<not> list_ex redoGlobal_test (actions st)"
      by (simp add: nothing_eligible_def)
    then have "redoGlobal st now = (st, None)" by (rule redoGlobal_noop)
    moreover have "(states srv)(rid \<mapsto> st) = states srv" using st by (rule map_upd_triv)
    ultimately have "Manager_redoGlobal (states srv) rid now = (states srv, None)"
      using st by (simp add: Manager_redoGlobal_def)
    with Some show ?thesis
      by (simp add: handleRedoGlobal_def rebuild_and_save_noop)
  qed
qed

lemma dispatch_undo_global:
  "handleMessage join srv ws (JObj ((''type'', JStr ''undo-global'') # fs)) clk
     = quiet ws (handleUndoGlobal srv ws (clk 0))"
  by (simp add: handleMessage_def)

lemma dispatch_undo_my:
  "handleMessage join srv ws (JObj ((''type'', JStr ''undo-my'') # fs)) clk
     = quiet ws (handleUndoMy srv ws (clk 0))"
  by (simp add: handleMessage_def)

lemma dispatch_redo_global:
  "handleMessage join srv ws (JObj ((''type'', JStr ''redo-global'') # fs)) clk
     = quiet ws (handleRedoGlobal srv ws (clk 0))"
  by (simp add: handleMessage_def)

text \<open>
  Claim C6. When the scan of an \<^verbatim>\<open>undo-global\<close>, \<^verbatim>\<open>undo-my\<close> or \<^verbatim>\<open>redo-global\<close>
  request finds no eligible action, its handler returns the server as it was and no
  effect at all: no message is sent to anyone and nothing is handed to the file system.
  The same holds for the message routed through \<open>handleMessage\<close>, and for the request
  repeated on the resulting server.
\<close>

theorem undo_redo_noop_silent:
  "(nothing_eligible undoGlobal_test srv ws \<longrightarrow>
      handleUndoGlobal srv ws now = (srv, [])
      \<and> handleUndoGlobal (fst (handleUndoGlobal srv ws now)) ws later = (srv, [])
      \<and> handleMessage join srv ws (JObj ((''type'', JStr ''undo-global'') # fs)) clk
          = (srv, ws, [], False))
   \<and> (nothing_eligible (undoForUser_test (Some (ws_id ws))) srv ws \<longrightarrow>
      handleUndoMy srv ws now = (srv, [])
      \<and> handleUndoMy (fst (handleUndoMy srv ws now)) ws later = (srv, [])
      \<and> handleMessage join srv ws (JObj ((''type'', JStr ''undo-my'') # fs)) clk
          = (srv, ws, [], False))
   \<and> (nothing_eligible redoGlobal_test srv ws \<longrightarrow>
      handleRedoGlobal srv ws now = (srv, [])
      \<and> handleRedoGlobal (fst (handleRedoGlobal srv ws now)) ws later = (srv, [])
      \<and> handleMessage join srv ws (JObj ((''type'', JStr ''redo-global'') # fs)) clk
          = (srv, ws, [], False))"
proof (intro conjI impI)
  assume a: "nothing_eligible undoGlobal_test srv ws"
  show "handleUndoGlobal srv ws now = (srv, [])" using a by (rule handleUndoGlobal_noop)
  show "handleUndoGlobal (fst (handleUndoGlobal srv ws now)) ws later = (srv, [])"
    by (simp add: handleUndoGlobal_noop[OF a])
  show "handleMessage join srv ws (JObj ((''type'', JStr ''undo-global'') # fs)) clk
          = (srv, ws, [], False)"
    by (simp add: dispatch_undo_global handleUndoGlobal_noop[OF a] quiet_def)
next
  assume a: "nothing_eligible (undoForUser_test (Some (ws_id ws))) srv ws"
  show "handleUndoMy srv ws now = (srv, [])" using a by (rule handleUndoMy_noop)
  show "handleUndoMy (fst (handleUndoMy srv ws now)) ws later = (srv, [])"
    by (simp add: handleUndoMy_noop[OF a])
  show "handleMessage join srv ws (JObj ((''type'', JStr ''undo-my'') # fs)) clk
          = (srv, ws, [], False)"
    by (simp add: dispatch_undo_my handleUndoMy_noop[OF a] quiet_def)
next
  assume a: "nothing_eligible redoGlobal_test srv ws"
  show "handleRedoGlobal srv ws now = (srv, [])" using a by (rule handleRedoGlobal_noop)
  show "handleRedoGlobal (fst (handleRedoGlobal srv ws now)) ws later = (srv, [])"
    by (simp add: handleRedoGlobal_noop[OF a])
  show "handleMessage join srv ws (JObj ((''type'', JStr ''redo-global'') # fs)) clk
          = (srv, ws, [], False)"
    by (simp add: dispatch_redo_global handleRedoGlobal_noop[OF a] quiet_def)
qed

lemma cleared_server_log:
  "states cleared_server ''ROOM''
     = Some (sample_log\<lparr>actions := [\<lparr>aid = 1, userId = None, atype = Some ''clear'',
              payload = \<lparr>p_tool = None, p_color = None, p_size = None, p_path = None,
                p_startX = None, p_startY = None\<rparr>, timestamp = 8, undone = False\<rparr>],
           actionIdCounter := 1, lastModified := 9\<rparr>)"
proof -
  have m: "maxActions sample_log = 1000" by (simp add: sample_log_eval)
  show ?thesis
    by (simp add: cleared_server_def handleCanvasClear_def room_of_def alice_ws_def
        sample_server_def Manager_clearState_def clear_then_marker[OF m] Let_def)
qed

lemma cleared_server_quiet:
  "nothing_eligible undoGlobal_test cleared_server alice_ws"
  "nothing_eligible (undoForUser_test (Some (ws_id alice_ws))) cleared_server alice_ws"
  "nothing_eligible redoGlobal_test cleared_server alice_ws"
  by (simp_all add: nothing_eligible_def cleared_server_log room_of_def alice_ws_def
      undoGlobal_test_def undoForUser_test_def redoGlobal_test_def)

text \<open>On the cleared sample server the log holds the clear marker only, which no scan
  accepts: all three requests of alice are silent.\<close>

theorem undo_redo_noop_silent_witness:
  "nothing_eligible undoGlobal_test cleared_server alice_ws
   \<and> handleUndoGlobal cleared_server alice_ws 10 = (cleared_server, [])
   \<and> nothing_eligible (undoForUser_test (Some (ws_id alice_ws))) cleared_server alice_ws
   \<and> handleUndoMy cleared_server alice_ws 10 = (cleared_server, [])
   \<and> nothing_eligible redoGlobal_test cleared_server alice_ws
   \<and> handleRedoGlobal cleared_server alice_ws 10 = (cleared_server, [])"
proof -
  note t = undo_redo_noop_silent[of cleared_server alice_ws 10 11 no_join "[]" "\<lambda>k. 10"]
  have a: "handleUndoGlobal cleared_server alice_ws 10 = (cleared_server, [])"
    by (rule t[THEN conjunct1, THEN mp, OF cleared_server_quiet(1), THEN conjunct1])
  have b: "handleUndoMy cleared_server alice_ws 10 = (cleared_server, [])"
    by (rule t[THEN conjunct2, THEN conjunct1, THEN mp, OF cleared_server_quiet(2), THEN conjunct1])
  have c: "handleRedoGlobal cleared_server alice_ws 10 = (cleared_server, [])"
    by (rule t[THEN conjunct2, THEN conjunct2, THEN mp, OF cleared_server_quiet(3), THEN conjunct1])
  show ?thesis using cleared_server_quiet a b c by - (intro conjI, assumption+)
qed

text \<open>
  Claim C10. A message whose type is \<^verbatim>\<open>undo\<close> has the outcome of one whose type is
  \<^verbatim>\<open>undo-my\<close>, namely that of \<open>handleUndoMy\<close> for the sender; a message whose type is
  \<^verbatim>\<open>redo\<close> has the outcome of one whose type is \<^verbatim>\<open>redo-global\<close>, namely that of
  \<open>handleRedoGlobal\<close>. When the log returns an affected action, the outcome is the
  updated server, the \<^verbatim>\<open>canvas-rebuild\<close> (with undo type \<^verbatim>\<open>my\<close>, respectively
  \<^verbatim>\<open>redo\<close>) broadcast to every open member of the room, and the log handed to the file
  system.
\<close>

theorem legacy_undo_redo:
  assumes "map_of fs ''type'' = Some (JStr ''undo'')"
    and "map_of gs ''type'' = Some (JStr ''undo-my'')"
    and "map_of hs ''type'' = Some (JStr ''redo'')"
    and "map_of ks ''type'' = Some (JStr ''redo-global'')"
  shows "handleMessage join srv ws (JObj fs) clk = handleMessage join srv ws (JObj gs) clk
     \<and> handleMessage join srv ws (JObj fs) clk = quiet ws (handleUndoMy srv ws (clk 0))
     \<and> handleMessage join srv ws (JObj hs) clk = handleMessage join srv ws (JObj ks) clk
     \<and> handleMessage join srv ws (JObj hs) clk = quiet ws (handleRedoGlobal srv ws (clk 0))
     \<and> (\<forall>rid sts a. room_of ws = Some rid
            \<and> Manager_undoForUser (states srv) rid (Some (ws_id ws)) (clk 0) = (sts, Some a) \<longrightarrow>
          handleMessage join srv ws (JObj fs) clk
            = (srv\<lparr>states := sts\<rparr>, ws,
               broadcast (srv\<lparr>states := sts\<rparr>) rid
                 (CanvasRebuild (Manager_getState sts rid) ''my'' (aid a) (ws_username ws)) None
               @ saveState (srv\<lparr>states := sts\<rparr>) rid, False))
     \<and> (\<forall>rid sts a. room_of ws = Some rid
            \<and> Manager_redoGlobal (states srv) rid (clk 0) = (sts, Some a) \<longrightarrow>
          handleMessage join srv ws (JObj hs) clk
            = (srv\<lparr>states := sts\<rparr>, ws,
               broadcast (srv\<lparr>states := sts\<rparr>) rid
                 (CanvasRebuild (Manager_getState sts rid) ''redo'' (aid a) (ws_username ws)) None
               @ saveState (srv\<lparr>states := sts\<rparr>) rid, False))"
proof -
  have u: "handleMessage join srv ws (JObj fs) clk = quiet ws (handleUndoMy srv ws (clk 0))"
    using assms(1) by (simp add: handleMessage_def)
  have um: "handleMessage join srv ws (JObj gs) clk = quiet ws (handleUndoMy srv ws (clk 0))"
    using assms(2) by (simp add: handleMessage_def)
  have r: "handleMessage join srv ws (JObj hs) clk = quiet ws (handleRedoGlobal srv ws (clk 0))"
    using assms(3) by (simp add: handleMessage_def)
  have rg: "handleMessage join srv ws (JObj ks) clk = quiet ws (handleRedoGlobal srv ws (clk 0))"
    using assms(4) by (simp add: handleMessage_def)
  have us: "\<forall>rid sts a. room_of ws = Some rid
            \<and> Manager_undoForUser (states srv) rid (Some (ws_id ws)) (clk 0) = (sts, Some a) \<longrightarrow>
          handleMessage join srv ws (JObj fs) clk
            = (srv\<lparr>states := sts\<rparr>, ws,
               broadcast (srv\<lparr>states := sts\<rparr>) rid
                 (CanvasRebuild (Manager_getState sts rid) ''my'' (aid a) (ws_username ws)) None
               @ saveState (srv\<lparr>states := sts\<rparr>) rid, False)"
    unfolding u by (simp add: quiet_def handleUndoMy_def rebuild_and_save_def Let_def)
  have rs: "\<forall>rid sts a. room_of ws = Some rid
            \<and> Manager_redoGlobal (states srv) rid (clk 0) = (sts, Some a) \<longrightarrow>
          handleMessage join srv ws (JObj hs) clk
            = (srv\<lparr>states := sts\<rparr>, ws,
               broadcast (srv\<lparr>states := sts\<rparr>) rid
                 (CanvasRebuild (Manager_getState sts rid) ''redo'' (aid a) (ws_username ws)) None
               @ saveState (srv\<lparr>states := sts\<rparr>) rid, False)"
    unfolding r by (simp add: quiet_def handleRedoGlobal_def rebuild_and_save_def Let_def)
  show ?thesis
    using u um r rg us rs by (simp only: simp_thms)
qed

lemma sample_undo_my:
  "handleUndoMy sample_server alice_ws 10
     = (sample_server\<lparr>states := Map.empty(''ROOM'' \<mapsto>
          sample_log\<lparr>actions := (actions sample_log)[0 := (actions sample_log ! 0)\<lparr>undone := True\<rparr>],
                     lastModified := 10\<rparr>)\<rparr>,
        [Send ''alice'' (CanvasRebuild
           (Some (getState (sample_log\<lparr>actions := (actions sample_log)[0 := (actions sample_log ! 0)\<lparr>undone := True\<rparr>],
                     lastModified := 10\<rparr>))) ''my'' 1 (Some ''Alice'')),
         Send ''bob'' (CanvasRebuild
           (Some (getState (sample_log\<lparr>actions := (actions sample_log)[0 := (actions sample_log ! 0)\<lparr>undone := True\<rparr>],
                     lastModified := 10\<rparr>))) ''my'' 1 (Some ''Alice'')),
         Write ''ROOM'' (toJSON (sample_log\<lparr>actions := (actions sample_log)[0 := (actions sample_log ! 0)\<lparr>undone := True\<rparr>],
                     lastModified := 10\<rparr>))])"
proof -
  have scan: "scan_down (undoForUser_test (Some ''alice'')) (actions sample_log)
      (length (actions sample_log)) = Some 0"
    by (simp add: sample_log_eval undoForUser_test_def)
  have first: "aid (actions sample_log ! 0) = 1" by (simp add: sample_log_eval)
  have undo: "Manager_undoForUser (states sample_server) ''ROOM'' (Some ''alice'') 10
      = (Map.empty(''ROOM'' \<mapsto>
          sample_log\<lparr>actions := (actions sample_log)[0 := (actions sample_log ! 0)\<lparr>undone := True\<rparr>],
                     lastModified := 10\<rparr>),
         Some ((actions sample_log ! 0)\<lparr>undone := True\<rparr>))"
    by (simp add: Manager_undoForUser_def sample_server_def undoForUser_def scan flip_at_def Let_def)
  have room: "room_of alice_ws = Some ''ROOM''" "ws_id alice_ws = ''alice''"
    "ws_username alice_ws = Some ''Alice''"
    by (simp_all add: room_of_def alice_ws_def)
  show ?thesis
    unfolding handleUndoMy_def room option.case undo rebuild_and_save_def prod.case Let_def
    by (simp add: first broadcast_def getUsers_def saveState_def Manager_saveState_def
        Manager_getState_def sample_server_def)
qed

theorem legacy_undo_redo_witness:
  "map_of [(''type'', JStr ''undo'')] ''type'' = Some (JStr ''undo'')
   \<and> map_of [(''type'', JStr ''undo-my'')] ''type'' = Some (JStr ''undo-my'')
   \<and> map_of [(''type'', JStr ''redo'')] ''type'' = Some (JStr ''redo'')
   \<and> map_of [(''type'', JStr ''redo-global'')] ''type'' = Some (JStr ''redo-global'')
   \<and> handleMessage no_join sample_server alice_ws (JObj [(''type'', JStr ''undo'')]) (\<lambda>k. 10)
      = handleMessage no_join sample_server alice_ws (JObj [(''type'', JStr ''undo-my'')]) (\<lambda>k. 10)
   \<and> handleMessage no_join sample_server alice_ws (JObj [(''type'', JStr ''undo'')]) (\<lambda>k. 10)
      = quiet alice_ws (handleUndoMy sample_server alice_ws 10)
   \<and> length (snd (handleUndoMy sample_server alice_ws 10)) = 3"
proof -
  have h: "map_of [(''type'', JStr ''undo'')] ''type'' = Some (JStr ''undo'')"
    "map_of [(''type'', JStr ''undo-my'')] ''type'' = Some (JStr ''undo-my'')"
    "map_of [(''type'', JStr ''redo'')] ''type'' = Some (JStr ''redo'')"
    "map_of [(''type'', JStr ''redo-global'')] ''type'' = Some (JStr ''redo-global'')"
    by simp_all
  note t = legacy_undo_redo[OF h, of no_join sample_server alice_ws "\<lambda>k. 10"]
  have a: "handleMessage no_join sample_server alice_ws (JObj [(''type'', JStr ''undo'')]) (\<lambda>k. 10)
      = handleMessage no_join sample_server alice_ws (JObj [(''type'', JStr ''undo-my'')]) (\<lambda>k. 10)"
    by (rule t[THEN conjunct1])
  have b: "handleMessage no_join sample_server alice_ws (JObj [(''type'', JStr ''undo'')]) (\<lambda>k. 10)
      = quiet alice_ws (handleUndoMy sample_server alice_ws 10)"
    by (rule t[THEN conjunct2, THEN conjunct1])
  have c: "length (snd (handleUndoMy sample_server alice_ws 10)) = 3"
    by (simp add: sample_undo_my)
  show ?thesis using h a b c by - (intro conjI, assumption+)
qed

text \<open>
  Claim C5. A batch from alice with the single move \<open>x = 20000\<close>, \<open>y = 0\<close> is broadcast
  to bob as a \<^verbatim>\<open>draw-move\<close>, whereas the same move sent as a \<^verbatim>\<open>draw-move\<close> message is
  dropped by \<open>isValidDrawData\<close> (the coordinate exceeds 10000): the batch path checks
  the types of the coordinates but not their bound. A batch never changes the server,
  so the log stays as it is.
\<close>

theorem batch_skips_coordinate_bound:
  "handleDrawBatch sample_server alice_ws
     [(''type'', JStr ''draw-batch''),
      (''moves'', JArr [JObj [(''x'', JNum 20000), (''y'', JNum 0)]])]
   = (sample_server,
      [Send ''bob'' (Plain (JObj
         [(''type'', JStr ''draw-move''), (''userId'', JStr ''alice''),
          (''username'', JStr ''Alice''), (''x'', JNum 20000), (''y'', JNum 0)]))],
      False)
   \<and> handleDrawEvent sample_server alice_ws
        [(''type'', JStr ''draw-move''), (''x'', JNum 20000), (''y'', JNum 0)] 0 0 0 0
      = (sample_server, [])
   \<and> fst (handleDrawBatch srv ws fs) = srv"
proof -
  have room: "room_of alice_ws = Some ''ROOM''" "ws_id alice_ws = ''alice''"
    "ws_username alice_ws = Some ''Alice''"
    by (simp_all add: room_of_def alice_ws_def)
  have users: "getUsers sample_server ''ROOM''
      = [\<lparr>m_id = ''alice'', m_username = ''Alice'', m_open = True\<rparr>,
         \<lparr>m_id = ''bob'', m_username = ''Bob'', m_open = True\<rparr>]"
    by (simp add: getUsers_def sample_server_def)
  have batch: "handleDrawBatch sample_server alice_ws
     [(''type'', JStr ''draw-batch''),
      (''moves'', JArr [JObj [(''x'', JNum 20000), (''y'', JNum 0)]])]
   = (sample_server,
      [Send ''bob'' (Plain (JObj
         [(''type'', JStr ''draw-move''), (''userId'', JStr ''alice''),
          (''username'', JStr ''Alice''), (''x'', JNum 20000), (''y'', JNum 0)]))],
      False)"
    by (simp add: handleDrawBatch_def room broadcast_def users)
  have single: "handleDrawEvent sample_server alice_ws
        [(''type'', JStr ''draw-move''), (''x'', JNum 20000), (''y'', JNum 0)] 0 0 0 0
      = (sample_server, [])"
    by (simp add: handleDrawEvent_def room isValidDrawData_def)
  have same: "fst (handleDrawBatch srv ws fs) = srv"
    by (simp add: handleDrawBatch_def split: option.split json.split prod.split)
  show ?thesis using batch single same by - (intro conjI, assumption+)
qed

end
